theory Spec2Isabelle
  imports Complex_Main
begin

section \<open>JSON values and the Python operations the handlers apply to them\<close>

text \<open>
  \<^verbatim>\<open>api_server.py\<close> reads artifact files with \<^verbatim>\<open>json.load\<close> and works on the
  resulting Python values with \<^verbatim>\<open>isinstance(data, list)\<close>, \<^verbatim>\<open>.get(key, default)\<close>,
  \<^verbatim>\<open>.lower()\<close>, \<^verbatim>\<open>in\<close>, \<^verbatim>\<open>list.extend\<close>, \<^verbatim>\<open>len\<close>, \<^verbatim>\<open>> 0\<close> and dictionary or set
  membership. A value is modelled by the datatype below. An object carries its items
  in insertion order; as for a Python \<^verbatim>\<open>dict\<close> built from a sequence of items, a
  repeated key keeps its first position and its last value. A float is its exact
  (finite) value; the handlers never compute with one, they only compare it with 0 or
  use it as a key. Strings are lists of 8-bit characters: the model covers ASCII text.
\<close>

datatype json =
    JNull
  | JBool bool
  | JInt int
  | JFloat rat
  | JStr string
  | JArr "json list"
  | JObj "(string \<times> json) list"

text \<open>The exceptions the handlers can meet.\<close>

datatype py_exc =
    AttributeError
  | TypeError
  | ReadError
  | UnicodeDecodeError
  | OSError

text \<open>Sequencing of computations that may raise: the first exception wins.\<close>

definition bindE :: "py_exc + 'a \<Rightarrow> ('a \<Rightarrow> py_exc + 'b) \<Rightarrow> py_exc + 'b" where
  "bindE m f = (case m of Inl e \<Rightarrow> Inl e | Inr x \<Rightarrow> f x)"

text \<open>\<^verbatim>\<open>x.get(key, default)\<close>: only a dict has the method.\<close>

definition dict_get :: "json \<Rightarrow> string \<Rightarrow> json \<Rightarrow> py_exc + json" where
  "dict_get x k d =
     (case x of
        JObj kvs \<Rightarrow> (case map_of (rev kvs) k of None \<Rightarrow> Inr d | Some v \<Rightarrow> Inr v)
      | _ \<Rightarrow> Inl AttributeError)"

text \<open>\<^verbatim>\<open>s.lower()\<close> on ASCII text: only a str has the method.\<close>

definition lower_char :: "char \<Rightarrow> char" where
  "lower_char c =
     (let n = (of_char c :: nat)
      in if 65 \<le> n \<and> n \<le> 90 then char_of (n + 32) else c)"

definition lower :: "string \<Rightarrow> string" where
  "lower s = map lower_char s"

definition str_lower :: "json \<Rightarrow> py_exc + string" where
  "str_lower x = (case x of JStr s \<Rightarrow> Inr (lower s) | _ \<Rightarrow> Inl AttributeError)"

text \<open>\<^verbatim>\<open>needle in hay\<close> for two strings: \<^verbatim>\<open>needle\<close> occurs as a contiguous part.\<close>

fun starts_with :: "string \<Rightarrow> string \<Rightarrow> bool" where
  "starts_with [] hay = True"
| "starts_with (p # ps) [] = False"
| "starts_with (p # ps) (c # cs) = (p = c \<and> starts_with ps cs)"

fun str_contains :: "string \<Rightarrow> string \<Rightarrow> bool" where
  "str_contains needle [] = (needle = [])"
| "str_contains needle (c # cs) = (starts_with needle (c # cs) \<or> str_contains needle cs)"

text \<open>The keys of a dict, in insertion order (first occurrence of each).\<close>

definition dict_keys :: "(string \<times> json) list \<Rightarrow> string list" where
  "dict_keys kvs = rev (remdups (rev (map fst kvs)))"

text \<open>
  Iteration, as \<^verbatim>\<open>list.extend(x)\<close> does it: a list yields its elements, a str its
  characters, a dict its keys; anything else is not iterable.
\<close>

definition py_iter :: "json \<Rightarrow> py_exc + json list" where
  "py_iter x =
     (case x of
        JArr xs \<Rightarrow> Inr xs
      | JStr s \<Rightarrow> Inr (map (\<lambda>c. JStr [c]) s)
      | JObj kvs \<Rightarrow> Inr (map JStr (dict_keys kvs))
      | _ \<Rightarrow> Inl TypeError)"

text \<open>\<^verbatim>\<open>len(x)\<close>.\<close>

definition py_len :: "json \<Rightarrow> py_exc + nat" where
  "py_len x =
     (case x of
        JArr xs \<Rightarrow> Inr (length xs)
      | JStr s \<Rightarrow> Inr (length s)
      | JObj kvs \<Rightarrow> Inr (length (dict_keys kvs))
      | _ \<Rightarrow> Inl TypeError)"

text \<open>\<^verbatim>\<open>x > 0\<close>: defined for numbers and booleans.\<close>

definition py_gt_zero :: "json \<Rightarrow> py_exc + bool" where
  "py_gt_zero x =
     (case x of
        JBool b \<Rightarrow> Inr b
      | JInt i \<Rightarrow> Inr (0 < i)
      | JFloat r \<Rightarrow> Inr (0 < r)
      | _ \<Rightarrow> Inl TypeError)"

text \<open>
  Hashing a value for use as a dict key or set element. Lists and dicts are
  unhashable. Python identifies keys that compare equal, so \<^verbatim>\<open>1\<close>, \<^verbatim>\<open>1.0\<close> and
  \<^verbatim>\<open>True\<close> are one key: a key is kept as its canonical form.
\<close>

datatype hkey = KNone | KNum rat | KStr string

definition py_key :: "json \<Rightarrow> py_exc + hkey" where
  "py_key x =
     (case x of
        JNull \<Rightarrow> Inr KNone
      | JBool b \<Rightarrow> Inr (KNum (if b then 1 else 0))
      | JInt i \<Rightarrow> Inr (KNum (of_int i))
      | JFloat r \<Rightarrow> Inr (KNum r)
      | JStr s \<Rightarrow> Inr (KStr s)
      | _ \<Rightarrow> Inl TypeError)"

text \<open>
  A Python dict with hashed keys, as an association list in insertion order with
  distinct keys: membership, insertion of a fresh key, update of a present one.
\<close>

definition dict_has :: "('k \<times> 'v) list \<Rightarrow> 'k \<Rightarrow> bool" where
  "dict_has d k = (map_of d k \<noteq> None)"

fun dict_upd :: "('k \<times> 'v) list \<Rightarrow> 'k \<Rightarrow> ('v \<Rightarrow> 'v) \<Rightarrow> ('k \<times> 'v) list" where
  "dict_upd [] k f = []"
| "dict_upd ((k', v) # d) k f =
     (if k' = k then (k', f v) # d else (k', v) # dict_upd d k f)"

section \<open>The artifact store\<close>

text \<open>
  The directory \<^verbatim>\<open>outputs\<close> is a list of entries in the order the directory lists
  them. Opening and parsing a file either raises (unreadable file or malformed JSON)
  or yields a value. The modification time is what \<^verbatim>\<open>os.path.getmtime\<close> returns.
\<close>

datatype file_content = Unreadable | Parsed json

record artifact =
  fname :: string
  mtime :: rat
  content :: file_content

type_synonym store = "artifact list"

text \<open>
  \<^verbatim>\<open>Path.glob(pattern)\<close> for the patterns the server builds: literal characters and
  \<^verbatim>\<open>*\<close>, which matches any run of characters within a file name. Names are compared
  case-sensitively, as on a POSIX file system. The result keeps the listing order.
\<close>

fun glob_match :: "string \<Rightarrow> string \<Rightarrow> bool" where
  "glob_match [] s = (s = [])"
| "glob_match (p # ps) [] = (p = CHR ''*'' \<and> glob_match ps [])"
| "glob_match (p # ps) (c # cs) =
     (if p = CHR ''*'' then glob_match ps (c # cs) \<or> glob_match (p # ps) cs
      else p = c \<and> glob_match ps cs)"

definition glob :: "string \<Rightarrow> store \<Rightarrow> artifact list" where
  "glob pat st = filter (\<lambda>a. glob_match pat (fname a)) st"

definition SUPPORTED_SITES :: "string list" where
  "SUPPORTED_SITES = [''dmart'', ''jiomart'', ''naturesbasket'', ''zepto'', ''swiggy'']"

text \<open>\<^verbatim>\<open>', '.join(xs)\<close>.\<close>

fun join_comma :: "string list \<Rightarrow> string" where
  "join_comma [] = []"
| "join_comma [x] = x"
| "join_comma (x # y # ys) = x @ '', '' @ join_comma (y # ys)"

text \<open>
  What a handler raises: the 400 of site validation with its detail text, or the 500
  into which the outer \<^verbatim>\<open>except Exception\<close> turns any other exception.
\<close>

datatype http_error = HTTP400 string | HTTP500 py_exc

definition unsupported_site :: "string \<Rightarrow> http_error" where
  "unsupported_site site =
     HTTP400 (''Unsupported site: '' @ site @ ''. Supported sites: '' @ join_comma SUPPORTED_SITES)"

definition to500 :: "py_exc + 'a \<Rightarrow> http_error + 'a" where
  "to500 m = (case m of Inl e \<Rightarrow> Inl (HTTP500 e) | Inr x \<Rightarrow> Inr x)"

section \<open>GET /api/products\<close>

text \<open>
  The handlers below follow \<^verbatim>\<open>api_server.py\<close> statement by statement. Their
  \<^verbatim>\<open>print\<close> of a skipped file is left out of the three GET handlers (nothing reads
  it); the response's constant \<^verbatim>\<open>message\<close> text is carried by the constructor.
\<close>

text \<open>
  Lines 101 to 112: one file is read inside \<^verbatim>\<open>try\<close>; a list extends
  \<^verbatim>\<open>results\<close>, any other value is appended, a file that raises is skipped.
\<close>

definition read_all :: "file_content \<Rightarrow> json list" where
  "read_all c =
     (case c of
        Unreadable \<Rightarrow> []
      | Parsed (JArr xs) \<Rightarrow> xs
      | Parsed d \<Rightarrow> [d])"

definition load_results :: "artifact list \<Rightarrow> json list" where
  "load_results json_files = concat (map (\<lambda>a. read_all (content a)) json_files)"

record site_entry =
  location :: json
  products :: "json list"
  total :: nat

type_synonym sites_dict = "(hkey \<times> site_entry) list"

text \<open>Lines 119 to 132: the body of the aggregation loop.\<close>

definition group_step :: "sites_dict \<times> json list \<Rightarrow> json \<Rightarrow> py_exc + sites_dict \<times> json list" where
  "group_step acc result =
     (case acc of (sites_d, all_ps) \<Rightarrow>
        bindE (dict_get result ''site'' (JStr ''unknown'')) (\<lambda>site_v.
        bindE (dict_get result ''location'' (JStr ''Unknown'')) (\<lambda>location_v.
        bindE (dict_get result ''products'' (JArr [])) (\<lambda>products_v.
        bindE (py_key site_v) (\<lambda>k.
          let sites1 =
                (if dict_has sites_d k then sites_d
                 else sites_d @ [(k, \<lparr>location = location_v, products = [], total = 0\<rparr>)])
          in
        bindE (py_iter products_v) (\<lambda>ps.
        bindE (py_len products_v) (\<lambda>n.
          Inr (dict_upd sites1 k (\<lambda>e. e\<lparr>products := products e @ ps, total := total e + n\<rparr>),
               all_ps @ ps))))))))"

fun group_loop :: "sites_dict \<times> json list \<Rightarrow> json list \<Rightarrow> py_exc + sites_dict \<times> json list" where
  "group_loop acc [] = Inr acc"
| "group_loop acc (r # rs) = bindE (group_step acc r) (\<lambda>acc'. group_loop acc' rs)"

record all_payload =
  sites :: sites_dict
  all_products :: "json list"
  total_products :: nat
  total_sites :: nat

datatype all_response = NoParsedData | AllProducts all_payload

definition get_all_products :: "store \<Rightarrow> http_error + all_response" where
  "get_all_products st =
     (let json_files = glob ''*-parsed.json'' st in
      if json_files = [] then Inr NoParsedData
      else
        case group_loop ([], []) (load_results json_files) of
          Inl e \<Rightarrow> Inl (HTTP500 e)
        | Inr (sites_d, all_ps) \<Rightarrow>
            Inr (AllProducts \<lparr>sites = sites_d, all_products = all_ps,
                              total_products = length all_ps, total_sites = length sites_d\<rparr>))"

section \<open>GET /api/products/{site}\<close>

text \<open>\<^verbatim>\<open>r.get('site', '').lower() == site\<close>.\<close>

definition site_is :: "string \<Rightarrow> json \<Rightarrow> py_exc + bool" where
  "site_is site_q r =
     bindE (dict_get r ''site'' (JStr [])) (\<lambda>v.
     bindE (str_lower v) (\<lambda>s. Inr (s = site_q)))"

text \<open>A list comprehension with a condition that may raise.\<close>

fun filterE :: "('a \<Rightarrow> py_exc + bool) \<Rightarrow> 'a list \<Rightarrow> py_exc + 'a list" where
  "filterE p [] = Inr []"
| "filterE p (x # xs) =
     bindE (p x) (\<lambda>b.
     bindE (filterE p xs) (\<lambda>ys. Inr (if b then x # ys else ys)))"

text \<open>
  Lines 176 to 185: what one file adds to \<^verbatim>\<open>results\<close>. The comprehension is
  evaluated before \<^verbatim>\<open>extend\<close>, so a file that raises adds nothing.
\<close>

definition read_for_site :: "string \<Rightarrow> file_content \<Rightarrow> json list" where
  "read_for_site site_q c =
     (case c of
        Unreadable \<Rightarrow> []
      | Parsed (JArr xs) \<Rightarrow> (case filterE (site_is site_q) xs of Inl e \<Rightarrow> [] | Inr ys \<Rightarrow> ys)
      | Parsed d \<Rightarrow> (case site_is site_q d of Inl e \<Rightarrow> [] | Inr b \<Rightarrow> if b then [d] else []))"

text \<open>Lines 163 and 164: the two patterns, the second list appended to the first.\<close>

definition site_files :: "string \<Rightarrow> store \<Rightarrow> artifact list" where
  "site_files site_q st =
     glob (site_q @ ''*-parsed.json'') st @ glob (''*'' @ site_q @ ''*-parsed.json'') st"

type_synonym locations_dict = "(hkey \<times> json list) list"

text \<open>Lines 200 to 207: the body of the aggregation loop.\<close>

definition location_step ::
  "locations_dict \<times> json list \<Rightarrow> json \<Rightarrow> py_exc + locations_dict \<times> json list" where
  "location_step acc result =
     (case acc of (locations_d, all_ps) \<Rightarrow>
        bindE (dict_get result ''location'' (JStr ''Unknown'')) (\<lambda>location_v.
        bindE (dict_get result ''products'' (JArr [])) (\<lambda>products_v.
        bindE (py_key location_v) (\<lambda>k.
          let locations1 =
                (if dict_has locations_d k then locations_d else locations_d @ [(k, [])])
          in
        bindE (py_iter products_v) (\<lambda>ps.
          Inr (dict_upd locations1 k (\<lambda>l. l @ ps), all_ps @ ps))))))"

fun location_loop ::
  "locations_dict \<times> json list \<Rightarrow> json list \<Rightarrow> py_exc + locations_dict \<times> json list" where
  "location_loop acc [] = Inr acc"
| "location_loop acc (r # rs) = bindE (location_step acc r) (\<lambda>acc'. location_loop acc' rs)"

record site_payload =
  site :: string
  locations :: locations_dict
  site_products :: "json list"
  site_total_products :: nat
  total_locations :: nat

datatype site_response = SiteNoData string | SiteProducts site_payload

definition get_products_by_site :: "store \<Rightarrow> string \<Rightarrow> http_error + site_response" where
  "get_products_by_site st site_arg =
     (let site_q = lower site_arg in
      if site_q \<notin> set SUPPORTED_SITES then Inl (unsupported_site site_q)
      else
        let json_files = site_files site_q st in
        if json_files = [] then Inr (SiteNoData site_q)
        else
          let results = concat (map (\<lambda>a. read_for_site site_q (content a)) json_files) in
          if results = [] then Inr (SiteNoData site_q)
          else
            case location_loop ([], []) results of
              Inl e \<Rightarrow> Inl (HTTP500 e)
            | Inr (locations_d, all_ps) \<Rightarrow>
                Inr (SiteProducts \<lparr>site = site_q, locations = locations_d,
                                   site_products = all_ps,
                                   site_total_products = length all_ps,
                                   total_locations = length locations_d\<rparr>))"

section \<open>GET /api/products/{site}/{location}\<close>

text \<open>
  Lines 261 to 264: both fields are fetched and lower-cased before the condition is
  tested, so a field of the wrong type raises even when the other one fails to match.
\<close>

definition site_location_is :: "string \<Rightarrow> string \<Rightarrow> json \<Rightarrow> py_exc + bool" where
  "site_location_is site_q location_q result =
     bindE (dict_get result ''site'' (JStr [])) (\<lambda>sv.
     bindE (str_lower sv) (\<lambda>result_site.
     bindE (dict_get result ''location'' (JStr [])) (\<lambda>lv.
     bindE (str_lower lv) (\<lambda>result_location.
       Inr (result_site = site_q \<and> str_contains location_q result_location)))))"

text \<open>
  Lines 260 to 268: the loop over one file's records appends each match at once; a
  record that raises ends the file, and the matches appended before it stay.
\<close>

fun match_loop :: "string \<Rightarrow> string \<Rightarrow> json list \<Rightarrow> json list" where
  "match_loop site_q location_q [] = []"
| "match_loop site_q location_q (r # rs) =
     (case site_location_is site_q location_q r of
        Inl e \<Rightarrow> []
      | Inr b \<Rightarrow> (if b then [r] else []) @ match_loop site_q location_q rs)"

definition read_for_site_location :: "string \<Rightarrow> string \<Rightarrow> file_content \<Rightarrow> json list" where
  "read_for_site_location site_q location_q c =
     (case c of
        Unreadable \<Rightarrow> []
      | Parsed (JArr xs) \<Rightarrow> match_loop site_q location_q xs
      | Parsed d \<Rightarrow> match_loop site_q location_q [d])"

definition matching_results :: "store \<Rightarrow> string \<Rightarrow> string \<Rightarrow> json list" where
  "matching_results st site_q location_q =
     concat (map (\<lambda>a. read_for_site_location site_q location_q (content a))
                 (site_files site_q st))"

text \<open>Lines 280 to 282.\<close>

fun extend_products :: "json list \<Rightarrow> json list \<Rightarrow> py_exc + json list" where
  "extend_products all_ps [] = Inr all_ps"
| "extend_products all_ps (r # rs) =
     bindE (dict_get r ''products'' (JArr [])) (\<lambda>products_v.
     bindE (py_iter products_v) (\<lambda>ps. extend_products (all_ps @ ps) rs))"

record site_location_payload =
  sl_site :: string
  sl_location :: string
  sl_products :: "json list"
  sl_total_products :: nat

datatype site_location_response =
    SiteLocationNoData string string
  | SiteLocationProducts site_location_payload

definition get_products_by_site_and_location ::
  "store \<Rightarrow> string \<Rightarrow> string \<Rightarrow> http_error + site_location_response" where
  "get_products_by_site_and_location st site_arg location_arg =
     (let site_q = lower site_arg; location_q = lower location_arg in
      if site_q \<notin> set SUPPORTED_SITES then Inl (unsupported_site site_q)
      else if site_files site_q st = [] then Inr (SiteLocationNoData site_q location_q)
      else
        let matching = matching_results st site_q location_q in
        if matching = [] then Inr (SiteLocationNoData site_q location_q)
        else
          case extend_products [] matching of
            Inl e \<Rightarrow> Inl (HTTP500 e)
          | Inr all_ps \<Rightarrow>
              Inr (SiteLocationProducts \<lparr>sl_site = site_q, sl_location = location_q,
                                         sl_products = all_ps,
                                         sl_total_products = length all_ps\<rparr>))"

section \<open>POST /api/scrape\<close>

text \<open>
  The handler runs two external processes and looks at two directories. What it
  observes of them is its environment: how the scraping process ended, the file names
  in \<^verbatim>\<open>output\<close> after the first pause (or that the directory is missing), how the
  parsing process ended, and the directory \<^verbatim>\<open>outputs\<close> after the second pause. The
  pauses themselves are not modelled. The handler's \<^verbatim>\<open>print\<close> lines are returned as
  a log beside the response.
\<close>

record scrape_request =
  req_location :: string
  req_product :: string

text \<open>
  The bytes a process wrote to stderr, as the handler uses them: empty (falsy), text
  that \<^verbatim>\<open>decode()\<close> returns, or bytes that are not UTF-8, on which it raises.
\<close>

datatype stderr_out = StderrEmpty | StderrText string | StderrUndecodable

text \<open>Creating the process raises (no \<^verbatim>\<open>node\<close>), or it runs and exits with a code.\<close>

datatype proc_result = SpawnFailed | Exited int stderr_out

record scrape_env =
  scrape_proc :: proc_result
  html_dir :: "string list option"
  parse_proc :: proc_result
  outputs :: store

datatype log_entry = ScrapeWarning string | ReadFailure string

text \<open>\<^verbatim>\<open>stderr.decode() if stderr else "Unknown error"\<close>.\<close>

definition decode_stderr :: "stderr_out \<Rightarrow> py_exc + string" where
  "decode_stderr err =
     (case err of
        StderrEmpty \<Rightarrow> Inr ''Unknown error''
      | StderrText s \<Rightarrow> Inr s
      | StderrUndecodable \<Rightarrow> Inl UnicodeDecodeError)"

text \<open>
  What one item adds to \<^verbatim>\<open>sites_scraped\<close>: its site when
  \<^verbatim>\<open>item.get('totalProducts', 0) > 0\<close>.
\<close>

definition scraped_site :: "json \<Rightarrow> py_exc + json list" where
  "scraped_site item =
     bindE (dict_get item ''totalProducts'' (JInt 0)) (\<lambda>tp.
     bindE (py_gt_zero tp) (\<lambda>b.
       if b then bindE (dict_get item ''site'' (JStr ''unknown'')) (\<lambda>s. Inr [s])
       else Inr []))"

text \<open>The comprehension over a list of items.\<close>

fun scraped_sites :: "json list \<Rightarrow> py_exc + json list" where
  "scraped_sites [] = Inr []"
| "scraped_sites (item # items) =
     bindE (scraped_site item) (\<lambda>a.
     bindE (scraped_sites items) (\<lambda>b. Inr (a @ b)))"

fun mapE :: "('a \<Rightarrow> py_exc + 'b) \<Rightarrow> 'a list \<Rightarrow> py_exc + 'b list" where
  "mapE f [] = Inr []"
| "mapE f (x # xs) = bindE (f x) (\<lambda>y. bindE (mapE f xs) (\<lambda>ys. Inr (y # ys)))"

text \<open>
  \<^verbatim>\<open>list(set(xs))\<close>: every element is hashed, equal keys are merged. Python leaves the
  order of the resulting list open; the model lists each key once.
\<close>

definition list_set :: "json list \<Rightarrow> py_exc + hkey list" where
  "list_set xs = bindE (mapE py_key xs) (\<lambda>ks. Inr (remdups ks))"

record scrape_payload =
  sc_location :: string
  sc_product :: string
  sc_data :: json
  sc_total_sites :: nat
  sites_scraped :: "hkey list"

datatype scrape_response =
    ScrapeNoHtml string string
  | ScrapeSuccess scrape_payload

text \<open>
  Line 445: the batch artifacts sorted by modification time with \<^verbatim>\<open>reverse=True\<close>, so
  newest first; the sort is stable, files with equal times keep their listing order.
\<close>

definition batch_files :: "store \<Rightarrow> artifact list" where
  "batch_files st = sort_key (\<lambda>a. - mtime a) (glob ''parsed-results-*.json'' st)"

text \<open>Lines 452 to 457.\<close>

definition batch_sites :: "json \<Rightarrow> py_exc + json list" where
  "batch_sites data =
     (case data of
        JArr items \<Rightarrow> scraped_sites items
      | JObj kvs \<Rightarrow> scraped_site data
      | _ \<Rightarrow> Inr [])"

text \<open>
  Lines 473 to 486: one individual file in the fallback. \<^verbatim>\<open>all_data\<close> grows before
  the sites are worked out, so a file that raises there has already added its data.
\<close>

definition fallback_file ::
  "json list \<times> json list \<times> log_entry list \<Rightarrow> artifact \<Rightarrow> json list \<times> json list \<times> log_entry list" where
  "fallback_file acc a =
     (case acc of (all_data, sites_l, lg) \<Rightarrow>
        (case content a of
           Unreadable \<Rightarrow> (all_data, sites_l, lg @ [ReadFailure (fname a)])
         | Parsed (JArr items) \<Rightarrow>
             (case scraped_sites items of
                Inl e \<Rightarrow> (all_data @ items, sites_l, lg @ [ReadFailure (fname a)])
              | Inr s \<Rightarrow> (all_data @ items, sites_l @ s, lg))
         | Parsed d \<Rightarrow>
             (case scraped_site d of
                Inl e \<Rightarrow> (all_data @ [d], sites_l, lg @ [ReadFailure (fname a)])
              | Inr s \<Rightarrow> (all_data @ [d], sites_l @ s, lg))))"

text \<open>Lines 445 to 495: what to return once the parser has run.\<close>

definition resolve ::
  "scrape_request \<Rightarrow> store \<Rightarrow> log_entry list \<Rightarrow> log_entry list \<times> (http_error + scrape_response)" where
  "resolve req st lg =
     (case batch_files st of
        newest # older \<Rightarrow>
          (case content newest of
             Unreadable \<Rightarrow> (lg, Inl (HTTP500 ReadError))
           | Parsed data \<Rightarrow>
               (case bindE (batch_sites data) list_set of
                  Inl e \<Rightarrow> (lg, Inl (HTTP500 e))
                | Inr ss \<Rightarrow>
                    (lg, Inr (ScrapeSuccess
                       \<lparr>sc_location = req_location req, sc_product = req_product req,
                        sc_data = data,
                        sc_total_sites = (case data of JArr items \<Rightarrow> length items | _ \<Rightarrow> 1),
                        sites_scraped = ss\<rparr>))))
      | [] \<Rightarrow>
          (case foldl fallback_file ([], [], lg) (glob ''*-parsed.json'' st) of
             (all_data, sites_l, lg') \<Rightarrow>
               (case list_set sites_l of
                  Inl e \<Rightarrow> (lg', Inl (HTTP500 e))
                | Inr ss \<Rightarrow>
                    (lg', Inr (ScrapeSuccess
                       \<lparr>sc_location = req_location req, sc_product = req_product req,
                        sc_data = JArr all_data,
                        sc_total_sites = length all_data,
                        sites_scraped = ss\<rparr>)))))"

text \<open>Lines 408 to 411: the warning after a non-zero exit.\<close>

definition scrape_warning :: "int \<Rightarrow> stderr_out \<Rightarrow> py_exc + log_entry list" where
  "scrape_warning rc err =
     (if rc \<noteq> 0 then bindE (decode_stderr err) (\<lambda>error_msg. Inr [ScrapeWarning error_msg])
      else Inr [])"

definition scrape_products ::
  "scrape_request \<Rightarrow> scrape_env \<Rightarrow> log_entry list \<times> (http_error + scrape_response)" where
  "scrape_products req env =
     (case scrape_proc env of
        SpawnFailed \<Rightarrow> ([], Inl (HTTP500 OSError))
      | Exited rc err \<Rightarrow>
          (case scrape_warning rc err of
             Inl e \<Rightarrow> ([], Inl (HTTP500 e))
           | Inr lg \<Rightarrow>
               let html_files =
                     (case html_dir env of
                        None \<Rightarrow> []
                      | Some names \<Rightarrow> filter (glob_match ''*.html'') names)
               in
               if html_files = [] then
                 (lg, Inr (ScrapeNoHtml (req_location req) (req_product req)))
               else
                 (case parse_proc env of
                    SpawnFailed \<Rightarrow> (lg, Inl (HTTP500 OSError))
                  | Exited parse_rc parse_err \<Rightarrow> resolve req (outputs env) lg)))"

text \<open>The \<^verbatim>\<open>data\<close> field of either response.\<close>

definition response_data :: "scrape_response \<Rightarrow> json" where
  "response_data r = (case r of ScrapeNoHtml l p \<Rightarrow> JArr [] | ScrapeSuccess p \<Rightarrow> sc_data p)"

section \<open>Reading records and responses\<close>

text \<open>
  What the aggregation loop of \<^verbatim>\<open>get_all_products\<close> reads from one record: the key
  under which \<^verbatim>\<open>result.get('site', 'unknown')\<close> is grouped (none when that raises),
  \<^verbatim>\<open>result.get('location', 'Unknown')\<close>, the elements of
  \<^verbatim>\<open>result.get('products', [])\<close> and their number \<^verbatim>\<open>len(products)\<close>.
\<close>

definition site_key :: "json \<Rightarrow> hkey option" where
  "site_key r =
     (case bindE (dict_get r ''site'' (JStr ''unknown'')) py_key of
        Inl e \<Rightarrow> None | Inr k \<Rightarrow> Some k)"

definition location_of :: "json \<Rightarrow> json" where
  "location_of r =
     (case dict_get r ''location'' (JStr ''Unknown'') of Inl e \<Rightarrow> JNull | Inr l \<Rightarrow> l)"

definition products_of :: "json \<Rightarrow> json list" where
  "products_of r =
     (case bindE (dict_get r ''products'' (JArr [])) py_iter of Inl e \<Rightarrow> [] | Inr ps \<Rightarrow> ps)"

definition len_products :: "json \<Rightarrow> nat" where
  "len_products r =
     (case bindE (dict_get r ''products'' (JArr [])) py_len of Inl e \<Rightarrow> 0 | Inr n \<Rightarrow> n)"

text \<open>The records with a given site, and all the records \<^verbatim>\<open>GET /products\<close> loads.\<close>

definition with_site :: "hkey \<Rightarrow> json list \<Rightarrow> json list" where
  "with_site k rs = filter (\<lambda>r. site_key r = Some k) rs"

definition all_results :: "store \<Rightarrow> json list" where
  "all_results st = load_results (glob ''*-parsed.json'' st)"

text \<open>
  The grouping as the specification words it: a site maps to the location first seen,
  the concatenated products and the sum of their lengths.
\<close>

definition grouped :: "json list \<Rightarrow> hkey \<Rightarrow> site_entry option" where
  "grouped rs k =
     (case with_site k rs of
        [] \<Rightarrow> None
      | r # later \<Rightarrow>
          Some \<lparr>location = location_of r,
                products = concat (map products_of (r # later)),
                total = sum_list (map len_products (r # later))\<rparr>)"

text \<open>The loop invariant: after the records \<open>seen\<close>, the accumulator is their grouping.\<close>

definition group_inv :: "json list \<Rightarrow> sites_dict \<times> json list \<Rightarrow> bool" where
  "group_inv seen acc =
     (distinct (map fst (fst acc)) \<and> map_of (fst acc) = grouped seen \<and>
      snd acc = concat (map products_of seen))"

text \<open>
  The data model of a ParseResult: an object whose \<^verbatim>\<open>site\<close> and \<^verbatim>\<open>location\<close> are
  strings, whose \<^verbatim>\<open>products\<close> is a list and whose \<^verbatim>\<open>totalProducts\<close> is an integer.
  The handlers read every field with a default, so a field may be absent.
\<close>

definition field :: "json \<Rightarrow> string \<Rightarrow> json option" where
  "field r k = (case r of JObj kvs \<Rightarrow> map_of (rev kvs) k | _ \<Rightarrow> None)"

definition is_parse_result :: "json \<Rightarrow> bool" where
  "is_parse_result r =
     (case r of
        JObj kvs \<Rightarrow>
          (case field r ''site'' of None \<Rightarrow> True | Some (JStr s) \<Rightarrow> True | Some v \<Rightarrow> False) \<and>
          (case field r ''location'' of None \<Rightarrow> True | Some (JStr s) \<Rightarrow> True | Some v \<Rightarrow> False) \<and>
          (case field r ''products'' of None \<Rightarrow> True | Some (JArr ps) \<Rightarrow> True | Some v \<Rightarrow> False) \<and>
          (case field r ''totalProducts'' of None \<Rightarrow> True | Some (JInt n) \<Rightarrow> True | Some v \<Rightarrow> False)
      | _ \<Rightarrow> False)"

text \<open>A valid artifact file holds one ParseResult or a list of them.\<close>

definition valid_artifact :: "file_content \<Rightarrow> bool" where
  "valid_artifact c =
     (case c of
        Unreadable \<Rightarrow> False
      | Parsed (JArr xs) \<Rightarrow> list_all is_parse_result xs
      | Parsed d \<Rightarrow> is_parse_result d)"

definition artifact_products :: "file_content \<Rightarrow> json list" where
  "artifact_products c = concat (map products_of (read_all c))"

text \<open>
  The products a response of \<^verbatim>\<open>GET /products\<close> carries: \<^verbatim>\<open>all_products\<close>, or the empty
  \<^verbatim>\<open>products\<close> of the answer given when no file is found.
\<close>

definition response_products :: "all_response \<Rightarrow> json list" where
  "response_products resp = (case resp of NoParsedData \<Rightarrow> [] | AllProducts p \<Rightarrow> all_products p)"

text \<open>
  What the filter of \<^verbatim>\<open>get_products_by_site_and_location\<close> compares: a field read
  with the default \<^verbatim>\<open>''\<close> and lower-cased (empty when that raises), and the two
  conditions on a record.
\<close>

definition field_lower :: "json \<Rightarrow> string \<Rightarrow> string" where
  "field_lower r k =
     (case bindE (dict_get r k (JStr [])) str_lower of Inl e \<Rightarrow> [] | Inr s \<Rightarrow> s)"

definition matches :: "string \<Rightarrow> string \<Rightarrow> json \<Rightarrow> bool" where
  "matches site_q location_q r =
     (field_lower r ''site'' = site_q \<and> str_contains location_q (field_lower r ''location''))"

text \<open>
  Reading the answer of \<^verbatim>\<open>POST /scrape\<close>: whether
  \<^verbatim>\<open>item.get('totalProducts', 0) > 0\<close> holds of a record (false when the test
  raises), and the records that a \<^verbatim>\<open>data\<close> value aggregates: its elements when it is
  a list, itself otherwise.
\<close>

definition positive_total :: "json \<Rightarrow> bool" where
  "positive_total r =
     (case bindE (dict_get r ''totalProducts'' (JInt 0)) py_gt_zero of
        Inl e \<Rightarrow> False | Inr b \<Rightarrow> b)"

definition results_of :: "json \<Rightarrow> json list" where
  "results_of data = (case data of JArr items \<Rightarrow> items | _ \<Rightarrow> [data])"

text \<open>
  Lines 417 to 421: the HTML files the handler finds, none when the directory
  \<^verbatim>\<open>output\<close> does not exist.
\<close>

definition found_html :: "scrape_env \<Rightarrow> string list" where
  "found_html env =
     (case html_dir env of None \<Rightarrow> [] | Some names \<Rightarrow> filter (glob_match ''*.html'') names)"

section \<open>An example store\<close>

text \<open>
  Two artifacts of site \<^verbatim>\<open>dmart\<close> (one of them a list), one of site \<^verbatim>\<open>zepto\<close> and a
  file that cannot be read, with the aggregate \<^verbatim>\<open>GET /products\<close> returns for them.
\<close>

definition example_store :: store where
  "example_store =
     [\<lparr>fname = ''dmart-mumbai-parsed.json'', mtime = 1,
       content = Parsed (JObj [(''site'', JStr ''dmart''),
                  (''location'', JStr ''Mumbai - Andheri West''),
                  (''products'', JArr [JObj [(''name'', JStr ''Milk'')],
                                       JObj [(''name'', JStr ''Bread'')]]),
                  (''totalProducts'', JInt 2)])\<rparr>,
      \<lparr>fname = ''broken-parsed.json'', mtime = 2, content = Unreadable\<rparr>,
      \<lparr>fname = ''zepto-pune-parsed.json'', mtime = 3,
       content = Parsed (JObj [(''site'', JStr ''zepto''), (''location'', JStr ''Pune''),
                  (''products'', JArr [JObj [(''name'', JStr ''Eggs'')],
                                       JObj [(''name'', JStr ''Rice'')],
                                       JObj [(''name'', JStr ''Salt'')]]),
                  (''totalProducts'', JInt 3)])\<rparr>,
      \<lparr>fname = ''dmart-thane-parsed.json'', mtime = 4,
       content = Parsed (JArr [JObj [(''site'', JStr ''dmart''), (''location'', JStr ''Thane''),
                  (''products'', JArr [JObj [(''name'', JStr ''Tea'')]]),
                  (''totalProducts'', JInt 1)]])\<rparr>]"

definition example_payload :: all_payload where
  "example_payload =
     \<lparr>sites =
        [(KStr ''dmart'',
          \<lparr>location = JStr ''Mumbai - Andheri West'',
           products = [JObj [(''name'', JStr ''Milk'')], JObj [(''name'', JStr ''Bread'')],
                       JObj [(''name'', JStr ''Tea'')]],
           total = 3\<rparr>),
         (KStr ''zepto'',
          \<lparr>location = JStr ''Pune'',
           products = [JObj [(''name'', JStr ''Eggs'')], JObj [(''name'', JStr ''Rice'')],
                       JObj [(''name'', JStr ''Salt'')]],
           total = 3\<rparr>)],
      all_products =
        [JObj [(''name'', JStr ''Milk'')], JObj [(''name'', JStr ''Bread'')],
         JObj [(''name'', JStr ''Eggs'')], JObj [(''name'', JStr ''Rice'')],
         JObj [(''name'', JStr ''Salt'')], JObj [(''name'', JStr ''Tea'')]],
      total_products = 6, total_sites = 2\<rparr>"

text \<open>
  A scrape request and what its handler observes: the scraper exits with code 1, one
  HTML file is found, the parser runs, and \<^verbatim>\<open>outputs\<close> then holds the example store
  and two batch artifacts, the newer of them listed first. In that artifact the first
  record has no products and \<^verbatim>\<open>totalProducts = 4\<close>, the second one product and
  \<^verbatim>\<open>totalProducts = 0\<close>.
\<close>

definition example_request :: scrape_request where
  "example_request = \<lparr>req_location = ''Mumbai'', req_product = ''milk''\<rparr>"

definition example_env :: scrape_env where
  "example_env =
     \<lparr>scrape_proc = Exited 1 (StderrText ''zepto: timeout''),
      html_dir = Some [''dmart.html'', ''notes.txt''],
      parse_proc = Exited 0 StderrEmpty,
      outputs = example_store @
        [\<lparr>fname = ''parsed-results-20240101.json'', mtime = 9,
          content = Parsed (JArr
            [JObj [(''site'', JStr ''dmart''), (''location'', JStr ''Mumbai''),
                   (''products'', JArr []), (''totalProducts'', JInt 4)],
             JObj [(''site'', JStr ''zepto''), (''location'', JStr ''Mumbai''),
                   (''products'', JArr [JObj [(''name'', JStr ''Eggs'')]]),
                   (''totalProducts'', JInt 0)],
             JObj [(''site'', JStr ''dmart''), (''location'', JStr ''Thane''),
                   (''products'', JArr [JObj [(''name'', JStr ''Milk'')]]),
                   (''totalProducts'', JInt 1)]])\<rparr>,
         \<lparr>fname = ''parsed-results-20231231.json'', mtime = 5,
          content = Parsed (JArr
            [JObj [(''site'', JStr ''zepto''), (''location'', JStr ''Pune''),
                   (''products'', JArr [JObj [(''name'', JStr ''Rice'')]]),
                   (''totalProducts'', JInt 1)]])\<rparr>]\<rparr>"

definition example_scrape_payload :: scrape_payload where
  "example_scrape_payload =
     \<lparr>sc_location = ''Mumbai'', sc_product = ''milk'',
      sc_data = JArr
            [JObj [(''site'', JStr ''dmart''), (''location'', JStr ''Mumbai''),
                   (''products'', JArr []), (''totalProducts'', JInt 4)],
             JObj [(''site'', JStr ''zepto''), (''location'', JStr ''Mumbai''),
                   (''products'', JArr [JObj [(''name'', JStr ''Eggs'')]]),
                   (''totalProducts'', JInt 0)],
             JObj [(''site'', JStr ''dmart''), (''location'', JStr ''Thane''),
                   (''products'', JArr [JObj [(''name'', JStr ''Milk'')]]),
                   (''totalProducts'', JInt 1)]],
      sc_total_sites = 3,
      sites_scraped = [KStr ''dmart'']\<rparr>"

section \<open>Site validation\<close>

text \<open>
  C5. A site argument whose lower-cased form is not one of the five supported sites
  makes both site-scoped handlers raise the 400 validation error, whatever the store
  holds; a site argument whose lower-cased form is one of the five is never answered
  with a 400.
\<close>

theorem unknown_site_rejected:
  "(lower s \<notin> set SUPPORTED_SITES \<longrightarrow>
      get_products_by_site st s = Inl (unsupported_site (lower s)) \<and>
      get_products_by_site_and_location st s l = Inl (unsupported_site (lower s)))
   \<and> (lower s \<in> set SUPPORTED_SITES \<longrightarrow>
      (\<forall>d. get_products_by_site st s \<noteq> Inl (HTTP400 d)) \<and>
      (\<forall>d. get_products_by_site_and_location st s l \<noteq> Inl (HTTP400 d)))"
  by (auto simp: get_products_by_site_def get_products_by_site_and_location_def Let_def
      split: sum.splits prod.splits)

theorem unknown_site_rejected_witness:
  "get_products_by_site [] ''Amazon'' = Inl (unsupported_site ''amazon'') \<and>
   get_products_by_site_and_location [] ''Amazon'' ''Pune'' = Inl (unsupported_site ''amazon'') \<and>
   (\<forall>d. get_products_by_site [] ''DMart'' \<noteq> Inl (HTTP400 d)) \<and>
   (\<forall>d. get_products_by_site_and_location [] ''DMart'' ''Pune'' \<noteq> Inl (HTTP400 d))"
proof -
  have a: "lower ''Amazon'' = ''amazon''" by code_simp
  have b: "lower ''DMart'' = ''dmart''" by code_simp
  have na: "''amazon'' \<notin> set SUPPORTED_SITES" by (simp add: SUPPORTED_SITES_def)
  have nb: "''dmart'' \<in> set SUPPORTED_SITES" by (simp add: SUPPORTED_SITES_def)
  show ?thesis
    using unknown_site_rejected [of "''Amazon''" "[]" "''Pune''"]
      unknown_site_rejected [of "''DMart''" "[]" "''Pune''"] a b na nb
    by simp
qed

section \<open>Discovery by two overlapping patterns\<close>

text \<open>
  \<^verbatim>\<open>*\<close> matches the empty run, so every name the first pattern of
  \<^verbatim>\<open>get_products_by_site\<close> matches is matched by the second one too, and such a file
  is listed twice in \<^verbatim>\<open>json_files\<close>.
\<close>

lemma glob_match_star: "glob_match p f \<Longrightarrow> glob_match (CHR ''*'' # p) f"
  by (cases f) auto

lemma first_pattern_subsumed:
  "a \<in> set (glob (site_q @ ''*-parsed.json'') st) \<Longrightarrow>
   a \<in> set (glob (''*'' @ site_q @ ''*-parsed.json'') st)"
  by (simp add: glob_def glob_match_star)

text \<open>
  C1, evaluated on the code. The store holds the single artifact
  \<^verbatim>\<open>dmart-mumbai-parsed.json\<close> with two products of site \<^verbatim>\<open>dmart\<close>. The file name
  matches both patterns, the file is read twice, and \<^verbatim>\<open>GET /products/dmart\<close>
  answers with four products in one location.
\<close>

theorem site_query_counts_matching_file_twice:
  "get_products_by_site
     [\<lparr>fname = ''dmart-mumbai-parsed.json'', mtime = 1,
       content = Parsed (JObj [(''site'', JStr ''dmart''), (''location'', JStr ''Mumbai''),
                  (''products'', JArr [JObj [(''name'', JStr ''Milk'')],
                                       JObj [(''name'', JStr ''Bread'')]]),
                  (''totalProducts'', JInt 2),
                  (''filename'', JStr ''dmart-mumbai.html'')])\<rparr>]
     ''dmart''
   = Inr (SiteProducts
       \<lparr>site = ''dmart'',
        locations = [(KStr ''Mumbai'',
           [JObj [(''name'', JStr ''Milk'')], JObj [(''name'', JStr ''Bread'')],
            JObj [(''name'', JStr ''Milk'')], JObj [(''name'', JStr ''Bread'')]])],
        site_products =
           [JObj [(''name'', JStr ''Milk'')], JObj [(''name'', JStr ''Bread'')],
            JObj [(''name'', JStr ''Milk'')], JObj [(''name'', JStr ''Bread'')]],
        site_total_products = 4,
        total_locations = 1\<rparr>)"
  by code_simp

section \<open>Grouping keeps the raw site string\<close>

text \<open>
  C10. Two artifacts whose site fields are \<^verbatim>\<open>Dmart\<close> and \<^verbatim>\<open>dmart\<close> give two entries
  in the \<^verbatim>\<open>sites\<close> mapping of \<^verbatim>\<open>GET /products\<close> and \<^verbatim>\<open>total_sites = 2\<close>, while the
  site-scoped query for \<^verbatim>\<open>dmart\<close> takes the records of both as one site.
\<close>

theorem raw_site_keys_not_case_folded:
  "get_all_products
     [\<lparr>fname = ''a-dmart-mumbai-parsed.json'', mtime = 1,
       content = Parsed (JObj [(''site'', JStr ''Dmart''), (''location'', JStr ''Mumbai''),
                  (''products'', JArr [JObj [(''name'', JStr ''Milk'')]]),
                  (''totalProducts'', JInt 1)])\<rparr>,
      \<lparr>fname = ''b-dmart-pune-parsed.json'', mtime = 2,
       content = Parsed (JObj [(''site'', JStr ''dmart''), (''location'', JStr ''Pune''),
                  (''products'', JArr [JObj [(''name'', JStr ''Bread'')]]),
                  (''totalProducts'', JInt 1)])\<rparr>]
   = Inr (AllProducts
       \<lparr>sites = [(KStr ''Dmart'', \<lparr>location = JStr ''Mumbai'',
                                   products = [JObj [(''name'', JStr ''Milk'')]], total = 1\<rparr>),
                 (KStr ''dmart'', \<lparr>location = JStr ''Pune'',
                                   products = [JObj [(''name'', JStr ''Bread'')]], total = 1\<rparr>)],
        all_products = [JObj [(''name'', JStr ''Milk'')], JObj [(''name'', JStr ''Bread'')]],
        total_products = 2, total_sites = 2\<rparr>)
   \<and>
   get_products_by_site
     [\<lparr>fname = ''a-dmart-mumbai-parsed.json'', mtime = 1,
       content = Parsed (JObj [(''site'', JStr ''Dmart''), (''location'', JStr ''Mumbai''),
                  (''products'', JArr [JObj [(''name'', JStr ''Milk'')]]),
                  (''totalProducts'', JInt 1)])\<rparr>,
      \<lparr>fname = ''b-dmart-pune-parsed.json'', mtime = 2,
       content = Parsed (JObj [(''site'', JStr ''dmart''), (''location'', JStr ''Pune''),
                  (''products'', JArr [JObj [(''name'', JStr ''Bread'')]]),
                  (''totalProducts'', JInt 1)])\<rparr>]
     ''dmart''
   = Inr (SiteProducts
       \<lparr>site = ''dmart'',
        locations = [(KStr ''Mumbai'', [JObj [(''name'', JStr ''Milk'')]]),
                     (KStr ''Pune'', [JObj [(''name'', JStr ''Bread'')]])],
        site_products = [JObj [(''name'', JStr ''Milk'')], JObj [(''name'', JStr ''Bread'')]],
        site_total_products = 2,
        total_locations = 2\<rparr>)"
  by code_simp

section \<open>The aggregate of GET /api/products\<close>

lemma bindE_Inr [simp]: "bindE (Inr x) f = f x"
  by (simp add: bindE_def)

lemma bindE_Inl [simp]: "bindE (Inl e) f = Inl e"
  by (simp add: bindE_def)

lemma bindE_eq_Inr: "bindE m f = Inr y \<longleftrightarrow> (\<exists>x. m = Inr x \<and> f x = Inr y)"
  by (cases m) auto

lemma py_iter_len: "py_iter x = Inr ps \<Longrightarrow> py_len x = Inr (length ps)"
  by (auto simp: py_iter_def py_len_def split: json.splits)

lemma len_products_length: "len_products r = length (products_of r)"
  by (cases r) (auto simp: len_products_def products_of_def dict_get_def py_iter_def py_len_def
      split: json.splits option.splits)

lemma map_of_dict_upd:
  "map_of (dict_upd d k f) k' = (if k' = k then map_option f (map_of d k) else map_of d k')"
  by (induction d k f rule: dict_upd.induct) auto

lemma fst_dict_upd: "map fst (dict_upd d k f) = map fst d"
  by (induction d k f rule: dict_upd.induct) auto

lemma dict_has_iff: "dict_has d k \<longleftrightarrow> k \<in> fst ` set d"
  by (simp add: dict_has_def map_of_eq_None_iff)

lemma map_of_snoc_fresh:
  "k \<notin> fst ` set d \<Longrightarrow> map_of (d @ [(k, v)]) k' = (if k' = k then Some v else map_of d k')"
  by (induction d) auto

lemma group_step_Inr:
  assumes "group_step (sd, ap) r = Inr acc'"
  shows "\<exists>k. site_key r = Some k \<and>
          acc' = (dict_upd (if dict_has sd k then sd
                            else sd @ [(k, \<lparr>location = location_of r, products = [], total = 0\<rparr>)])
                    k (\<lambda>e. e\<lparr>products := products e @ products_of r,
                              total := total e + len_products r\<rparr>),
                  ap @ products_of r)"
  using assms
  by (auto simp: group_step_def bindE_eq_Inr site_key_def location_of_def products_of_def
      len_products_def Let_def)

lemma grouped_snoc:
  "grouped (seen @ [r]) k' =
     (if site_key r = Some k' then
        (case grouped seen k' of
           None \<Rightarrow> Some \<lparr>location = location_of r, products = products_of r, total = len_products r\<rparr>
         | Some e \<Rightarrow> Some (e\<lparr>products := products e @ products_of r, total := total e + len_products r\<rparr>))
      else grouped seen k')"
  by (auto simp: grouped_def with_site_def split: list.splits)

lemma grouped_None_iff: "grouped seen k = None \<longleftrightarrow> with_site k seen = []"
  by (simp add: grouped_def split: list.splits)

lemma group_step_inv:
  assumes inv: "group_inv seen acc" and step: "group_step acc r = Inr acc'"
  shows "group_inv (seen @ [r]) acc'"
proof -
  obtain sd ap where acc: "acc = (sd, ap)" by (cases acc)
  from step acc obtain k where k: "site_key r = Some k"
    and acc': "acc' = (dict_upd (if dict_has sd k then sd
                            else sd @ [(k, \<lparr>location = location_of r, products = [], total = 0\<rparr>)])
                    k (\<lambda>e. e\<lparr>products := products e @ products_of r,
                              total := total e + len_products r\<rparr>),
                  ap @ products_of r)"
    using group_step_Inr by blast
  from inv acc have d: "distinct (map fst sd)" and m: "map_of sd = grouped seen"
    and a: "ap = concat (map products_of seen)"
    by (simp_all add: group_inv_def)
  have has: "dict_has sd k \<longleftrightarrow> grouped seen k \<noteq> None"
    by (simp add: dict_has_def m)
  have dist': "distinct (map fst (fst acc'))"
    using d by (auto simp: acc' fst_dict_upd dict_has_iff)
  have map': "map_of (fst acc') k' = grouped (seen @ [r]) k'" for k'
  proof (cases "dict_has sd k")
    case True
    then obtain e where e: "grouped seen k = Some e" using has by auto
    show ?thesis
      using True e k m by (auto simp: acc' map_of_dict_upd grouped_snoc)
  next
    case False
    then have none: "grouped seen k = None" using has by simp
    from False have fresh: "k \<notin> fst ` set sd" by (simp add: dict_has_iff)
    show ?thesis
      using False none k m fresh
      by (auto simp: acc' map_of_dict_upd grouped_snoc map_of_snoc_fresh simp del: map_of_append)
  qed
  show ?thesis
    unfolding group_inv_def using dist' map' a by (auto simp: acc')
qed

lemma group_loop_inv:
  "group_inv seen acc \<Longrightarrow> group_loop acc rs = Inr acc' \<Longrightarrow> group_inv (seen @ rs) acc'"
proof (induction rs arbitrary: seen acc)
  case Nil
  then show ?case by simp
next
  case (Cons r rs)
  from Cons.prems(2) obtain acc1 where s: "group_step acc r = Inr acc1"
    and l: "group_loop acc1 rs = Inr acc'"
    by (auto simp: bindE_eq_Inr)
  from group_step_inv [OF Cons.prems(1) s] have "group_inv (seen @ [r]) acc1" .
  from Cons.IH [OF this l] show ?case by simp
qed

lemma group_inv_init: "group_inv [] ([], [])"
  by (auto simp: group_inv_def grouped_def with_site_def)

lemma group_loop_result:
  assumes "group_loop ([], []) rs = Inr (sd, ap)"
  shows "distinct (map fst sd)" and "map_of sd = grouped rs" and "ap = concat (map products_of rs)"
  using group_loop_inv [OF group_inv_init assms] by (simp_all add: group_inv_def)

lemma get_all_products_Inr:
  assumes "get_all_products st = Inr (AllProducts p)"
  shows "group_loop ([], []) (all_results st) = Inr (sites p, all_products p)"
    and "total_products p = length (all_products p)"
    and "total_sites p = length (sites p)"
  using assms
  by (auto simp: get_all_products_def all_results_def Let_def split: if_splits sum.splits prod.splits)

lemma len_products_eq: "len_products = (\<lambda>r. length (products_of r))"
  by (rule ext) (rule len_products_length)

lemma group_loop_keys:
  "group_loop acc rs = Inr acc' \<Longrightarrow> r \<in> set rs \<Longrightarrow> \<exists>k. site_key r = Some k"
proof (induction rs arbitrary: acc)
  case Nil
  then show ?case by simp
next
  case (Cons x xs)
  from Cons.prems(1) obtain acc1 where s: "group_step acc x = Inr acc1"
    and l: "group_loop acc1 xs = Inr acc'"
    by (auto simp: bindE_eq_Inr)
  obtain sd ap where "acc = (sd, ap)" by (cases acc)
  with s have "\<exists>k. site_key x = Some k" using group_step_Inr by blast
  with Cons.IH [OF l] Cons.prems(2) show ?case by auto
qed

lemma sum_list_length_concat: "length (concat xss) = sum_list (map length xss)"
  by (induction xss) auto

lemma example_all_products:
  "get_all_products example_store = Inr (AllProducts example_payload)"
  by code_simp

text \<open>
  C2. Whenever \<^verbatim>\<open>GET /products\<close> answers with the aggregate, \<^verbatim>\<open>total_products\<close> is the
  sum of \<^verbatim>\<open>len(products)\<close> over all loaded records, the \<^verbatim>\<open>total\<close> of each entry of
  the \<^verbatim>\<open>sites\<close> mapping is that sum over the records whose site is the entry's key, and
  every loaded record has its site among the keys. The records come from all the files
  the pattern finds, however many they are.
\<close>

theorem group_totals:
  assumes "get_all_products st = Inr (AllProducts p)"
  shows "total_products p = sum_list (map len_products (all_results st)) \<and>
         (\<forall>(k, e) \<in> set (sites p).
             total e = sum_list (map len_products (with_site k (all_results st)))) \<and>
         (\<forall>r \<in> set (all_results st). \<exists>k e. site_key r = Some k \<and> (k, e) \<in> set (sites p))"
proof -
  note res = group_loop_result [OF get_all_products_Inr(1) [OF assms]]
  have tp: "total_products p = sum_list (map len_products (all_results st))"
    using get_all_products_Inr(2) [OF assms] res(3)
    by (simp add: sum_list_length_concat comp_def len_products_eq)
  have per: "total e = sum_list (map len_products (with_site k (all_results st)))"
    if "(k, e) \<in> set (sites p)" for k e
  proof -
    from that res(1) have "map_of (sites p) k = Some e" by simp
    then have "grouped (all_results st) k = Some e" by (simp add: res(2))
    then show ?thesis by (auto simp: grouped_def split: list.splits)
  qed
  have cov: "\<exists>k e. site_key r = Some k \<and> (k, e) \<in> set (sites p)"
    if r: "r \<in> set (all_results st)" for r
  proof -
    have "\<exists>k. site_key r = Some k"
      using group_loop_keys [OF get_all_products_Inr(1) [OF assms] r] .
    then obtain k where k: "site_key r = Some k" ..
    with r have "with_site k (all_results st) \<noteq> []"
      by (auto simp: with_site_def filter_empty_conv)
    then obtain x xs where "with_site k (all_results st) = x # xs"
      by (cases "with_site k (all_results st)") auto
    then obtain e where "grouped (all_results st) k = Some e"
      by (simp add: grouped_def)
    then have "map_of (sites p) k = Some e" by (simp add: res(2))
    then have "(k, e) \<in> set (sites p)" by (rule map_of_SomeD)
    with k show ?thesis by blast
  qed
  show ?thesis using tp per cov by blast
qed

theorem group_totals_witness:
  "get_all_products example_store = Inr (AllProducts example_payload) \<and>
   total_products example_payload = sum_list (map len_products (all_results example_store)) \<and>
   total (snd (hd (sites example_payload))) =
     sum_list (map len_products (with_site (fst (hd (sites example_payload))) (all_results example_store)))"
proof -
  have m: "hd (sites example_payload) \<in> set (sites example_payload)"
    by (simp add: example_payload_def)
  from group_totals [OF example_all_products] m example_all_products
  show ?thesis by (auto simp: case_prod_beta)
qed

text \<open>
  C9. Whenever \<^verbatim>\<open>GET /products\<close> answers with the aggregate, every loaded record has
  a site key, and each key has one entry in the \<^verbatim>\<open>sites\<close> mapping. Take any record
  that is the first with its site: the mapping has an entry for that site, the
  entry's location is that record's location, and its product list is that record's
  products followed by the products of every later record with the same site, in
  order. Conversely every entry of the mapping arises from such a first record.
\<close>

theorem first_location_kept:
  assumes "get_all_products st = Inr (AllProducts p)"
  shows "(\<forall>r \<in> set (all_results st). \<exists>k. site_key r = Some k) \<and>
         distinct (map fst (sites p)) \<and>
         (\<forall>before r after k.
            all_results st = before @ r # after \<and> site_key r = Some k \<and>
            with_site k before = [] \<longrightarrow>
            (\<exists>e. (k, e) \<in> set (sites p) \<and> location e = location_of r \<and>
                 products e = products_of r @ concat (map products_of (with_site k after)))) \<and>
         (\<forall>(k, e) \<in> set (sites p).
            \<exists>before r after.
              all_results st = before @ r # after \<and> with_site k before = [] \<and>
              site_key r = Some k \<and> location e = location_of r \<and>
              products e = products_of r @ concat (map products_of (with_site k after)))"
proof -
  note res = group_loop_result [OF get_all_products_Inr(1) [OF assms]]
  have keys: "\<exists>k. site_key r = Some k" if "r \<in> set (all_results st)" for r
    using group_loop_keys [OF get_all_products_Inr(1) [OF assms] that] .
  have first: "\<exists>e. (k, e) \<in> set (sites p) \<and> location e = location_of r \<and>
                 products e = products_of r @ concat (map products_of (with_site k after))"
    if split: "all_results st = before @ r # after" and r: "site_key r = Some k"
      and b: "with_site k before = []" for before r after k
  proof -
    from split r b have "with_site k (all_results st) = r # with_site k after"
      by (simp add: with_site_def)
    then have "grouped (all_results st) k =
        Some \<lparr>location = location_of r,
              products = concat (map products_of (r # with_site k after)),
              total = sum_list (map len_products (r # with_site k after))\<rparr>"
      by (simp add: grouped_def)
    then have "map_of (sites p) k =
        Some \<lparr>location = location_of r,
              products = concat (map products_of (r # with_site k after)),
              total = sum_list (map len_products (r # with_site k after))\<rparr>"
      by (simp add: res(2))
    then have "(k, \<lparr>location = location_of r,
              products = concat (map products_of (r # with_site k after)),
              total = sum_list (map len_products (r # with_site k after))\<rparr>) \<in> set (sites p)"
      by (rule map_of_SomeD)
    then show ?thesis by fastforce
  qed
  have entry: "\<exists>before r after.
              all_results st = before @ r # after \<and> with_site k before = [] \<and>
              site_key r = Some k \<and> location e = location_of r \<and>
              products e = products_of r @ concat (map products_of (with_site k after))"
    if ke: "(k, e) \<in> set (sites p)" for k e
  proof -
    from ke res(1) have "map_of (sites p) k = Some e" by simp
    then have g: "grouped (all_results st) k = Some e" by (simp add: res(2))
    then obtain r later where w: "with_site k (all_results st) = r # later"
      and e: "e = \<lparr>location = location_of r, products = concat (map products_of (r # later)),
                   total = sum_list (map len_products (r # later))\<rparr>"
      by (auto simp: grouped_def split: list.splits)
    from w obtain before after where split: "all_results st = before @ r # after"
      and b: "\<forall>u \<in> set before. site_key u \<noteq> Some k" and r: "site_key r = Some k"
      and l: "later = with_site k after"
      unfolding with_site_def filter_eq_Cons_iff by blast
    from b have "with_site k before = []" by (simp add: with_site_def filter_empty_conv)
    with split r l e show ?thesis by auto
  qed
  from keys res(1) first entry show ?thesis by blast
qed

theorem first_location_kept_witness:
  "get_all_products example_store = Inr (AllProducts example_payload) \<and>
   (\<exists>e. (KStr ''dmart'', e) \<in> set (sites example_payload) \<and>
        location e = JStr ''Mumbai - Andheri West'' \<and>
        products e = [JObj [(''name'', JStr ''Milk'')], JObj [(''name'', JStr ''Bread'')],
                      JObj [(''name'', JStr ''Tea'')]])"
proof -
  let ?r = "JObj [(''site'', JStr ''dmart''),
                  (''location'', JStr ''Mumbai - Andheri West''),
                  (''products'', JArr [JObj [(''name'', JStr ''Milk'')],
                                       JObj [(''name'', JStr ''Bread'')]]),
                  (''totalProducts'', JInt 2)]"
  let ?after = "[JObj [(''site'', JStr ''zepto''), (''location'', JStr ''Pune''),
                  (''products'', JArr [JObj [(''name'', JStr ''Eggs'')],
                                       JObj [(''name'', JStr ''Rice'')],
                                       JObj [(''name'', JStr ''Salt'')]]),
                  (''totalProducts'', JInt 3)],
                 JObj [(''site'', JStr ''dmart''), (''location'', JStr ''Thane''),
                  (''products'', JArr [JObj [(''name'', JStr ''Tea'')]]),
                  (''totalProducts'', JInt 1)]]"
  have split: "all_results example_store = [] @ ?r # ?after" by code_simp
  have key: "site_key ?r = Some (KStr ''dmart'')" by code_simp
  have before: "with_site (KStr ''dmart'') [] = []" by (simp add: with_site_def)
  have loc: "location_of ?r = JStr ''Mumbai - Andheri West''" by code_simp
  have prods: "products_of ?r @ concat (map products_of (with_site (KStr ''dmart'') ?after)) =
      [JObj [(''name'', JStr ''Milk'')], JObj [(''name'', JStr ''Bread'')],
       JObj [(''name'', JStr ''Tea'')]]"
    by code_simp
  from first_location_kept [OF example_all_products] split key before
  obtain e where "(KStr ''dmart'', e) \<in> set (sites example_payload)"
    and "location e = location_of ?r"
    and "products e = products_of ?r @ concat (map products_of (with_site (KStr ''dmart'') ?after))"
    by blast
  with loc prods example_all_products show ?thesis by auto
qed

lemma dict_get_field:
  "dict_get (JObj kvs) k d = Inr (case field (JObj kvs) k of None \<Rightarrow> d | Some v \<Rightarrow> v)"
  by (simp add: dict_get_def field_def split: option.splits)

lemma is_parse_result_obj: "is_parse_result r \<Longrightarrow> \<exists>kvs. r = JObj kvs"
  by (cases r) (simp_all add: is_parse_result_def)

lemma is_parse_result_site:
  assumes "is_parse_result r"
  shows "\<exists>s. dict_get r ''site'' (JStr d) = Inr (JStr s)"
proof -
  from assms obtain kvs where r: "r = JObj kvs" using is_parse_result_obj by blast
  from assms have "case field r ''site'' of None \<Rightarrow> True | Some (JStr s) \<Rightarrow> True | Some v \<Rightarrow> False"
    by (simp add: is_parse_result_def r)
  then show ?thesis
    unfolding r dict_get_field by (auto split: option.splits json.splits)
qed

lemma is_parse_result_location:
  assumes "is_parse_result r"
  shows "\<exists>s. dict_get r ''location'' (JStr d) = Inr (JStr s)"
proof -
  from assms obtain kvs where r: "r = JObj kvs" using is_parse_result_obj by blast
  from assms have "case field r ''location'' of None \<Rightarrow> True | Some (JStr s) \<Rightarrow> True | Some v \<Rightarrow> False"
    by (simp add: is_parse_result_def r)
  then show ?thesis
    unfolding r dict_get_field by (auto split: option.splits json.splits)
qed

lemma is_parse_result_products:
  assumes "is_parse_result r"
  shows "\<exists>ps. dict_get r ''products'' (JArr []) = Inr (JArr ps)"
proof -
  from assms obtain kvs where r: "r = JObj kvs" using is_parse_result_obj by blast
  from assms have "case field r ''products'' of None \<Rightarrow> True | Some (JArr ps) \<Rightarrow> True | Some v \<Rightarrow> False"
    by (simp add: is_parse_result_def r)
  then show ?thesis
    unfolding r dict_get_field by (auto split: option.splits json.splits)
qed

lemma is_parse_result_total:
  assumes "is_parse_result r"
  shows "\<exists>n. dict_get r ''totalProducts'' (JInt 0) = Inr (JInt n)"
proof -
  from assms obtain kvs where r: "r = JObj kvs" using is_parse_result_obj by blast
  from assms have "case field r ''totalProducts'' of None \<Rightarrow> True | Some (JInt n) \<Rightarrow> True | Some v \<Rightarrow> False"
    by (simp add: is_parse_result_def r)
  then show ?thesis
    unfolding r dict_get_field by (auto split: option.splits json.splits)
qed

lemma is_parse_result_step:
  assumes "is_parse_result r"
  shows "\<exists>acc'. group_step acc r = Inr acc'"
proof -
  obtain sd ap where acc: "acc = (sd, ap)" by (cases acc)
  from is_parse_result_site [OF assms] obtain s
    where s: "dict_get r ''site'' (JStr ''unknown'') = Inr (JStr s)" by blast
  from is_parse_result_location [OF assms] obtain l
    where l: "dict_get r ''location'' (JStr ''Unknown'') = Inr (JStr l)" by blast
  from is_parse_result_products [OF assms] obtain ps
    where ps: "dict_get r ''products'' (JArr []) = Inr (JArr ps)" by blast
  show ?thesis
    by (simp add: group_step_def acc s l ps py_key_def py_iter_def py_len_def Let_def)
qed

lemma is_parse_result_loop:
  "list_all is_parse_result rs \<Longrightarrow> \<exists>acc'. group_loop acc rs = Inr acc'"
proof (induction rs arbitrary: acc)
  case Nil
  then show ?case by simp
next
  case (Cons r rs)
  then obtain acc1 where "group_step acc r = Inr acc1"
    using is_parse_result_step by fastforce
  with Cons show ?case by auto
qed

lemma read_all_valid:
  "c = Unreadable \<or> valid_artifact c \<Longrightarrow> list_all is_parse_result (read_all c)"
  by (auto simp: valid_artifact_def read_all_def split: file_content.splits json.splits)

lemma load_results_valid:
  "list_all (\<lambda>a. content a = Unreadable \<or> valid_artifact (content a)) files \<Longrightarrow>
   list_all is_parse_result (load_results files)"
  by (induction files) (auto simp: load_results_def read_all_valid)

lemma products_of_valid_files:
  "list_all (\<lambda>a. content a = Unreadable \<or> valid_artifact (content a)) files \<Longrightarrow>
   concat (map products_of (load_results files)) =
   concat (map (\<lambda>a. artifact_products (content a)) (filter (\<lambda>a. valid_artifact (content a)) files))"
  by (induction files)
     (auto simp: load_results_def artifact_products_def read_all_def)

text \<open>
  C4. When every file the pattern finds is either unreadable (it cannot be opened or
  is not JSON) or a valid artifact, \<^verbatim>\<open>GET /products\<close> answers without an error, and
  the products it returns are those of the valid files, in listing order.
\<close>

theorem corrupt_files_skipped:
  assumes "list_all (\<lambda>a. content a = Unreadable \<or> valid_artifact (content a))
             (glob ''*-parsed.json'' st)"
  shows "\<exists>resp. get_all_products st = Inr resp \<and>
           response_products resp =
             concat (map (\<lambda>a. artifact_products (content a))
                      (filter (\<lambda>a. valid_artifact (content a)) (glob ''*-parsed.json'' st)))"
proof (cases "glob ''*-parsed.json'' st = []")
  case True
  then show ?thesis
    by (simp add: get_all_products_def response_products_def)
next
  case False
  from is_parse_result_loop [OF load_results_valid [OF assms]]
  obtain sd ap where loop: "group_loop ([], []) (load_results (glob ''*-parsed.json'' st)) = Inr (sd, ap)"
    by fastforce
  from group_loop_result(3) [OF loop] products_of_valid_files [OF assms]
  have "ap = concat (map (\<lambda>a. artifact_products (content a))
                      (filter (\<lambda>a. valid_artifact (content a)) (glob ''*-parsed.json'' st)))"
    by simp
  with False loop show ?thesis
    by (simp add: get_all_products_def response_products_def Let_def)
qed

theorem corrupt_files_skipped_witness:
  "list_all (\<lambda>a. content a = Unreadable \<or> valid_artifact (content a))
      (glob ''*-parsed.json'' example_store) \<and>
   (\<exists>resp. get_all_products example_store = Inr resp \<and>
      response_products resp =
        [JObj [(''name'', JStr ''Milk'')], JObj [(''name'', JStr ''Bread'')],
         JObj [(''name'', JStr ''Eggs'')], JObj [(''name'', JStr ''Rice'')],
         JObj [(''name'', JStr ''Salt'')], JObj [(''name'', JStr ''Tea'')]])"
proof -
  have h: "list_all (\<lambda>a. content a = Unreadable \<or> valid_artifact (content a))
      (glob ''*-parsed.json'' example_store)"
    by code_simp
  have v: "concat (map (\<lambda>a. artifact_products (content a))
              (filter (\<lambda>a. valid_artifact (content a)) (glob ''*-parsed.json'' example_store)))
        = [JObj [(''name'', JStr ''Milk'')], JObj [(''name'', JStr ''Bread'')],
         JObj [(''name'', JStr ''Eggs'')], JObj [(''name'', JStr ''Rice'')],
         JObj [(''name'', JStr ''Salt'')], JObj [(''name'', JStr ''Tea'')]]"
    by code_simp
  from corrupt_files_skipped [OF h] h v show ?thesis by simp
qed

text \<open>
  The tolerance ends at files that cannot be read. A file that parses to a value
  which is not a ParseResult is loaded like any other, and the aggregation loop then
  raises on it: the whole request is answered with 500.
\<close>

lemma non_object_artifact_is_fatal:
  "get_all_products
     (example_store @ [\<lparr>fname = ''notes-parsed.json'', mtime = 5, content = Parsed (JInt 42)\<rparr>])
   = Inl (HTTP500 AttributeError)"
  by code_simp

section \<open>Filtering by site and location\<close>

lemma starts_with_iff: "starts_with n h \<longleftrightarrow> (\<exists>q. h = n @ q)"
  by (induction n h rule: starts_with.induct) auto

lemma str_contains_iff: "str_contains n h \<longleftrightarrow> (\<exists>p q. h = p @ n @ q)"
proof (induction h)
  case Nil
  then show ?case by simp
next
  case (Cons c cs)
  have "(\<exists>p q. c # cs = p @ n @ q) \<longleftrightarrow> (\<exists>q. c # cs = n @ q) \<or> (\<exists>p q. cs = p @ n @ q)"
  proof
    assume "\<exists>p q. c # cs = p @ n @ q"
    then obtain p q where pq: "c # cs = p @ n @ q" by blast
    show "(\<exists>q. c # cs = n @ q) \<or> (\<exists>p q. cs = p @ n @ q)"
    proof (cases p)
      case Nil
      with pq show ?thesis by auto
    next
      case (Cons x p')
      with pq have "cs = p' @ n @ q" by simp
      then show ?thesis by blast
    qed
  next
    assume "(\<exists>q. c # cs = n @ q) \<or> (\<exists>p q. cs = p @ n @ q)"
    then show "\<exists>p q. c # cs = p @ n @ q"
    proof
      assume "\<exists>q. c # cs = n @ q"
      then obtain q where "c # cs = [] @ n @ q" by auto
      then show ?thesis by blast
    next
      assume "\<exists>p q. cs = p @ n @ q"
      then obtain p q where "c # cs = (c # p) @ n @ q" by auto
      then show ?thesis by blast
    qed
  qed
  with Cons show ?case by (simp add: starts_with_iff)
qed

lemma site_location_is_valid:
  assumes "is_parse_result r"
  shows "site_location_is sq lq r = Inr (matches sq lq r)"
proof -
  from is_parse_result_site [OF assms, of "[]"] obtain s
    where s: "dict_get r ''site'' (JStr []) = Inr (JStr s)" by blast
  from is_parse_result_location [OF assms, of "[]"] obtain l
    where l: "dict_get r ''location'' (JStr []) = Inr (JStr l)" by blast
  show ?thesis
    by (simp add: site_location_is_def matches_def field_lower_def s l str_lower_def)
qed

lemma match_loop_valid:
  "list_all is_parse_result rs \<Longrightarrow> match_loop sq lq rs = filter (matches sq lq) rs"
  by (induction rs) (auto simp: site_location_is_valid)

lemma read_for_site_location_valid:
  assumes "c = Unreadable \<or> valid_artifact c"
  shows "read_for_site_location sq lq c = filter (matches sq lq) (read_all c)"
proof -
  have v: "list_all is_parse_result (read_all c)" using assms by (rule read_all_valid)
  show ?thesis
  proof (cases c)
    case Unreadable
    then show ?thesis by (simp add: read_for_site_location_def read_all_def)
  next
    case (Parsed d)
    with v show ?thesis
      by (cases d) (simp_all add: read_for_site_location_def read_all_def match_loop_valid
          site_location_is_valid)
  qed
qed

lemma matching_results_valid:
  assumes "list_all (\<lambda>a. content a = Unreadable \<or> valid_artifact (content a)) (site_files sq st)"
  shows "matching_results st sq lq = filter (matches sq lq) (load_results (site_files sq st))"
proof -
  have "concat (map (\<lambda>a. read_for_site_location sq lq (content a)) files)
        = filter (matches sq lq) (load_results files)"
    if "list_all (\<lambda>a. content a = Unreadable \<or> valid_artifact (content a)) files" for files
    using that by (induction files) (auto simp: load_results_def read_for_site_location_valid)
  from this [OF assms] show ?thesis by (simp add: matching_results_def)
qed

lemma extend_products_valid:
  "list_all is_parse_result rs \<Longrightarrow>
   extend_products acc rs = Inr (acc @ concat (map products_of rs))"
proof (induction rs arbitrary: acc)
  case Nil
  then show ?case by simp
next
  case (Cons r rs)
  then have r: "is_parse_result r" by simp
  from is_parse_result_products [OF r] obtain ps
    where ps: "dict_get r ''products'' (JArr []) = Inr (JArr ps)" by blast
  have "products_of r = ps" by (simp add: products_of_def ps py_iter_def)
  with Cons ps show ?case by (simp add: py_iter_def)
qed

text \<open>
  C3, as amended. Take the artifact files whose names match one of the two patterns
  built from the lower-cased site, each of them unreadable or a valid artifact. A
  record is among the handler's \<^verbatim>\<open>matching_results\<close> exactly when it is a record of
  one of these files, its lower-cased site equals the lower-cased query site, and
  the lower-cased query location occurs inside its lower-cased location. For a
  supported site the response carries the products of exactly these records, or the
  empty answer when there are none.
\<close>

theorem site_location_filter:
  assumes "list_all (\<lambda>a. content a = Unreadable \<or> valid_artifact (content a))
             (site_files (lower s) st)"
  shows "(r \<in> set (matching_results st (lower s) (lower l)) \<longleftrightarrow>
            r \<in> set (load_results (site_files (lower s) st)) \<and>
            field_lower r ''site'' = lower s \<and>
            (\<exists>p q. field_lower r ''location'' = p @ lower l @ q))
         \<and>
         (lower s \<in> set SUPPORTED_SITES \<longrightarrow>
            get_products_by_site_and_location st s l =
              (if matching_results st (lower s) (lower l) = []
               then Inr (SiteLocationNoData (lower s) (lower l))
               else Inr (SiteLocationProducts
                 \<lparr>sl_site = lower s, sl_location = lower l,
                  sl_products =
                    concat (map products_of (matching_results st (lower s) (lower l))),
                  sl_total_products =
                    length (concat (map products_of (matching_results st (lower s) (lower l))))\<rparr>)))"
proof -
  note m = matching_results_valid [OF assms, of "lower l"]
  have mem: "r \<in> set (matching_results st (lower s) (lower l)) \<longleftrightarrow>
            r \<in> set (load_results (site_files (lower s) st)) \<and>
            field_lower r ''site'' = lower s \<and>
            (\<exists>p q. field_lower r ''location'' = p @ lower l @ q)"
    by (auto simp: m matches_def str_contains_iff)
  have v: "list_all is_parse_result (matching_results st (lower s) (lower l))"
    using load_results_valid [OF assms] by (simp add: m list_all_iff)
  have none: "matching_results st (lower s) (lower l) = []" if "site_files (lower s) st = []"
    using that by (simp add: matching_results_def)
  have resp: "get_products_by_site_and_location st s l =
              (if matching_results st (lower s) (lower l) = []
               then Inr (SiteLocationNoData (lower s) (lower l))
               else Inr (SiteLocationProducts
                 \<lparr>sl_site = lower s, sl_location = lower l,
                  sl_products =
                    concat (map products_of (matching_results st (lower s) (lower l))),
                  sl_total_products =
                    length (concat (map products_of (matching_results st (lower s) (lower l))))\<rparr>))"
    if "lower s \<in> set SUPPORTED_SITES"
    using that none extend_products_valid [OF v, of "[]"]
    by (simp add: get_products_by_site_and_location_def Let_def)
  from mem resp show ?thesis by blast
qed

theorem site_location_filter_witness:
  "list_all (\<lambda>a. content a = Unreadable \<or> valid_artifact (content a))
      (site_files (lower ''DMart'') example_store) \<and>
   JObj [(''site'', JStr ''dmart''), (''location'', JStr ''Mumbai - Andheri West''),
         (''products'', JArr [JObj [(''name'', JStr ''Milk'')], JObj [(''name'', JStr ''Bread'')]]),
         (''totalProducts'', JInt 2)]
     \<in> set (matching_results example_store (lower ''DMart'') (lower ''andheri'')) \<and>
   lower ''DMart'' \<in> set SUPPORTED_SITES"
proof -
  have h: "list_all (\<lambda>a. content a = Unreadable \<or> valid_artifact (content a))
      (site_files (lower ''DMart'') example_store)"
    by code_simp
  have a: "JObj [(''site'', JStr ''dmart''), (''location'', JStr ''Mumbai - Andheri West''),
         (''products'', JArr [JObj [(''name'', JStr ''Milk'')], JObj [(''name'', JStr ''Bread'')]]),
         (''totalProducts'', JInt 2)] \<in> set (load_results (site_files (lower ''DMart'') example_store))"
    by code_simp
  have b: "field_lower (JObj [(''site'', JStr ''dmart''), (''location'', JStr ''Mumbai - Andheri West''),
         (''products'', JArr [JObj [(''name'', JStr ''Milk'')], JObj [(''name'', JStr ''Bread'')]]),
         (''totalProducts'', JInt 2)]) ''site'' = lower ''DMart''"
    by code_simp
  have c: "field_lower (JObj [(''site'', JStr ''dmart''), (''location'', JStr ''Mumbai - Andheri West''),
         (''products'', JArr [JObj [(''name'', JStr ''Milk'')], JObj [(''name'', JStr ''Bread'')]]),
         (''totalProducts'', JInt 2)]) ''location'' = ''mumbai - '' @ lower ''andheri'' @ '' west''"
    by code_simp
  have d: "lower ''DMart'' \<in> set SUPPORTED_SITES" by code_simp
  from site_location_filter [OF h, of _ "''andheri''"] h a b c d show ?thesis by blast
qed

text \<open>
  C3 as stated fails for a record in a file whose name does not contain the site:
  the record below has site \<^verbatim>\<open>dmart\<close> and location \<^verbatim>\<open>Mumbai\<close>, it satisfies both
  conditions for the query \<^verbatim>\<open>dmart\<close>, \<^verbatim>\<open>mumbai\<close>, and the handler returns no data,
  because \<^verbatim>\<open>results-parsed.json\<close> matches neither pattern.
\<close>

theorem site_location_ignores_other_file_names:
  "get_products_by_site_and_location
     [\<lparr>fname = ''results-parsed.json'', mtime = 1,
       content = Parsed (JObj [(''site'', JStr ''dmart''), (''location'', JStr ''Mumbai''),
                  (''products'', JArr [JObj [(''name'', JStr ''Milk'')]]),
                  (''totalProducts'', JInt 1)])\<rparr>]
     ''dmart'' ''mumbai''
   = Inr (SiteLocationNoData ''dmart'' ''mumbai'') \<and>
   field_lower (JObj [(''site'', JStr ''dmart''), (''location'', JStr ''Mumbai''),
                  (''products'', JArr [JObj [(''name'', JStr ''Milk'')]]),
                  (''totalProducts'', JInt 1)]) ''site'' = lower ''dmart'' \<and>
   str_contains (lower ''mumbai'')
     (field_lower (JObj [(''site'', JStr ''dmart''), (''location'', JStr ''Mumbai''),
                  (''products'', JArr [JObj [(''name'', JStr ''Milk'')]]),
                  (''totalProducts'', JInt 1)]) ''location'')"
  by code_simp

section \<open>The scrape handler\<close>

lemma fallback_file_log:
  "fallback_file (ad, sl, pre @ lg) a =
     (case fallback_file (ad, sl, lg) a of (ad', sl', lg') \<Rightarrow> (ad', sl', pre @ lg'))"
  by (simp add: fallback_file_def split: file_content.splits json.splits sum.splits)

lemma foldl_fallback_log:
  "foldl fallback_file (ad, sl, pre @ lg) files =
     (case foldl fallback_file (ad, sl, lg) files of (ad', sl', lg') \<Rightarrow> (ad', sl', pre @ lg'))"
proof (induction files arbitrary: ad sl lg)
  case Nil
  then show ?case by simp
next
  case (Cons a files)
  obtain ad1 sl1 lg1 where s: "fallback_file (ad, sl, lg) a = (ad1, sl1, lg1)"
    by (cases "fallback_file (ad, sl, lg) a") auto
  then have "fallback_file (ad, sl, pre @ lg) a = (ad1, sl1, pre @ lg1)"
    by (simp add: fallback_file_log)
  with s Cons.IH [of ad1 sl1 lg1] show ?case by simp
qed

lemma resolve_log:
  "resolve req st (pre @ lg) = (pre @ fst (resolve req st lg), snd (resolve req st lg))"
proof (cases "batch_files st")
  case Nil
  obtain ad sl lg' where f: "foldl fallback_file ([], [], lg) (glob ''*-parsed.json'' st) = (ad, sl, lg')"
    by (cases "foldl fallback_file ([], [], lg) (glob ''*-parsed.json'' st)") auto
  then have "foldl fallback_file ([], [], pre @ lg) (glob ''*-parsed.json'' st) = (ad, sl, pre @ lg')"
    by (simp add: foldl_fallback_log)
  with f Nil show ?thesis
    by (simp add: resolve_def split: sum.splits)
next
  case (Cons newest older)
  then show ?thesis
    by (simp add: resolve_def split: file_content.splits sum.splits)
qed

text \<open>
  A non-zero exit code of the scraping process whose stderr is empty or decodes
  changes nothing but the log: the handler prints the warning first and then answers
  exactly as it does for exit code 0 in the same environment.
\<close>

lemma nonzero_exit_same_answer:
  assumes "rc \<noteq> 0" and "decode_stderr err = Inr msg"
  shows "scrape_products req (env\<lparr>scrape_proc := Exited rc err\<rparr>) =
           (ScrapeWarning msg # fst (scrape_products req (env\<lparr>scrape_proc := Exited 0 err\<rparr>)),
            snd (scrape_products req (env\<lparr>scrape_proc := Exited 0 err\<rparr>)))"
proof -
  have w: "scrape_warning rc err = Inr [ScrapeWarning msg]"
    using assms by (simp add: scrape_warning_def bindE_def)
  have z: "scrape_warning 0 err = Inr []"
    by (simp add: scrape_warning_def)
  have r: "resolve req st [ScrapeWarning msg] =
             (ScrapeWarning msg # fst (resolve req st []), snd (resolve req st []))" for st
    using resolve_log [of req st "[ScrapeWarning msg]" "[]"] by simp
  show ?thesis
    by (simp add: scrape_products_def w z r Let_def split: proc_result.splits option.splits)
qed

text \<open>
  C6, evaluated on the code. The scraper exits with code 3 and its stderr is not
  UTF-8. \<^verbatim>\<open>stderr.decode()\<close>, which the handler calls only after a non-zero exit,
  raises; no warning is printed and the request is answered with 500. In the same
  environment with exit code 0 the handler succeeds: here the 500 is due to the exit
  code, against the comment on line 410 (do not fail completely, some sites might
  have succeeded).
\<close>

theorem undecodable_stderr_is_fatal:
  "scrape_products example_request (example_env\<lparr>scrape_proc := Exited 3 StderrUndecodable\<rparr>)
     = ([], Inl (HTTP500 UnicodeDecodeError)) \<and>
   scrape_products example_request (example_env\<lparr>scrape_proc := Exited 0 StderrUndecodable\<rparr>)
     = ([], Inr (ScrapeSuccess example_scrape_payload))"
  by code_simp

lemma batch_files_empty: "batch_files st = [] \<longleftrightarrow> glob ''parsed-results-*.json'' st = []"
proof -
  have "length (batch_files st) = length (glob ''parsed-results-*.json'' st)"
    by (simp add: batch_files_def)
  then show ?thesis by (metis length_0_conv)
qed

lemma batch_files_newest:
  assumes "batch_files st = newest # older"
  shows "newest \<in> set (glob ''parsed-results-*.json'' st)"
    and "\<forall>a \<in> set (glob ''parsed-results-*.json'' st). mtime a \<le> mtime newest"
proof -
  let ?g = "glob ''parsed-results-*.json'' st"
  have s: "set (batch_files st) = set ?g" by (simp add: batch_files_def)
  with assms show "newest \<in> set ?g" by auto
  have "sorted (map (\<lambda>a. - mtime a) (batch_files st))"
    unfolding batch_files_def by (rule sorted_sort_key)
  with assms have "\<forall>a \<in> set older. - mtime newest \<le> - mtime a" by simp
  with assms s show "\<forall>a \<in> set ?g. mtime a \<le> mtime newest" by auto
qed

lemma fallback_data:
  "fst (foldl fallback_file (ad, sl, lg) files) = ad @ load_results files"
proof (induction files arbitrary: ad sl lg)
  case Nil
  then show ?case by (simp add: load_results_def)
next
  case (Cons a files)
  obtain ad1 sl1 lg1 where s: "fallback_file (ad, sl, lg) a = (ad1, sl1, lg1)"
    by (cases "fallback_file (ad, sl, lg) a") auto
  then have "ad1 = ad @ read_all (content a)"
    by (auto simp: fallback_file_def read_all_def split: file_content.splits json.splits sum.splits)
  with s Cons.IH [of ad1 sl1 lg1] show ?case by (simp add: load_results_def)
qed

lemma scraped_site_valid:
  assumes "is_parse_result r"
  shows "\<exists>s. site_key r = Some (KStr s) \<and>
             scraped_site r = Inr (if positive_total r then [JStr s] else [])"
proof -
  from is_parse_result_site [OF assms, of "''unknown''"] obtain s
    where s: "dict_get r ''site'' (JStr ''unknown'') = Inr (JStr s)" by blast
  from is_parse_result_total [OF assms] obtain n
    where n: "dict_get r ''totalProducts'' (JInt 0) = Inr (JInt n)" by blast
  have "site_key r = Some (KStr s)" by (simp add: site_key_def s py_key_def)
  moreover have "scraped_site r = Inr (if positive_total r then [JStr s] else [])"
    by (simp add: scraped_site_def positive_total_def s n py_gt_zero_def)
  ultimately show ?thesis by blast
qed

lemma scraped_sites_valid:
  "list_all is_parse_result rs \<Longrightarrow>
   \<exists>js ks. scraped_sites rs = Inr js \<and> mapE py_key js = Inr ks \<and>
           map Some ks = map site_key (filter positive_total rs)"
proof (induction rs)
  case Nil
  then show ?case by simp
next
  case (Cons r rs)
  then obtain js ks where js: "scraped_sites rs = Inr js" and ks: "mapE py_key js = Inr ks"
    and m: "map Some ks = map site_key (filter positive_total rs)" by auto
  from Cons.prems have "is_parse_result r" by simp
  from scraped_site_valid [OF this] obtain s where k: "site_key r = Some (KStr s)"
    and sc: "scraped_site r = Inr (if positive_total r then [JStr s] else [])" by blast
  have pk: "py_key (JStr s) = Inr (KStr s)" by (simp add: py_key_def)
  show ?case
  proof (cases "positive_total r")
    case True
    with js ks m k sc pk show ?thesis by simp
  next
    case False
    with js ks m k sc show ?thesis by simp
  qed
qed

lemma mapE_append:
  "mapE f xs = Inr a \<Longrightarrow> mapE f ys = Inr b \<Longrightarrow> mapE f (xs @ ys) = Inr (a @ b)"
  by (induction xs arbitrary: a) (auto simp: bindE_eq_Inr)

lemma fallback_file_valid:
  assumes "list_all is_parse_result (read_all (content a))"
  shows "\<exists>js ks lg'. fallback_file (ad, sl, lg) a = (ad @ read_all (content a), sl @ js, lg') \<and>
           mapE py_key js = Inr ks \<and>
           map Some ks = map site_key (filter positive_total (read_all (content a)))"
proof (cases "content a")
  case Unreadable
  then show ?thesis by (simp add: fallback_file_def read_all_def)
next
  case (Parsed d)
  show ?thesis
  proof (cases "\<exists>items. d = JArr items")
    case True
    then obtain items where d: "d = JArr items" by blast
    with Parsed assms have "list_all is_parse_result items" by (simp add: read_all_def)
    from scraped_sites_valid [OF this] Parsed d show ?thesis
      by (auto simp: fallback_file_def read_all_def)
  next
    case False
    with Parsed have ra: "read_all (content a) = [d]"
      by (cases d) (simp_all add: read_all_def)
    with assms have "is_parse_result d" by simp
    from scraped_site_valid [OF this] obtain s where k: "site_key d = Some (KStr s)"
      and sc: "scraped_site d = Inr (if positive_total d then [JStr s] else [])" by blast
    have ff: "fallback_file (ad, sl, lg) a =
            (ad @ [d], sl @ (if positive_total d then [JStr s] else []), lg)"
      using False Parsed sc by (cases d) (simp_all add: fallback_file_def)
    have pk: "py_key (JStr s) = Inr (KStr s)" by (simp add: py_key_def)
    show ?thesis
      unfolding ff ra using k pk by (cases "positive_total d") simp_all
  qed
qed

lemma fallback_valid:
  "list_all is_parse_result (load_results files) \<Longrightarrow>
   \<exists>js ks lg'. foldl fallback_file (ad, sl, lg) files = (ad @ load_results files, sl @ js, lg') \<and>
      mapE py_key js = Inr ks \<and>
      map Some ks = map site_key (filter positive_total (load_results files))"
proof (induction files arbitrary: ad sl lg)
  case Nil
  then show ?case by (simp add: load_results_def)
next
  case (Cons a files)
  from Cons.prems have va: "list_all is_parse_result (read_all (content a))"
    and vf: "list_all is_parse_result (load_results files)"
    by (simp_all add: load_results_def)
  from fallback_file_valid [OF va, of ad sl lg] obtain js1 ks1 lg1
    where f1: "fallback_file (ad, sl, lg) a = (ad @ read_all (content a), sl @ js1, lg1)"
      and k1: "mapE py_key js1 = Inr ks1"
      and m1: "map Some ks1 = map site_key (filter positive_total (read_all (content a)))"
    by blast
  from Cons.IH [OF vf, of "ad @ read_all (content a)" "sl @ js1" lg1] obtain js2 ks2 lg2
    where f2: "foldl fallback_file (ad @ read_all (content a), sl @ js1, lg1) files =
                 ((ad @ read_all (content a)) @ load_results files, (sl @ js1) @ js2, lg2)"
      and k2: "mapE py_key js2 = Inr ks2"
      and m2: "map Some ks2 = map site_key (filter positive_total (load_results files))"
    by blast
  have "foldl fallback_file (ad, sl, lg) (a # files) =
          (ad @ load_results (a # files), sl @ (js1 @ js2), lg2)"
    using f1 f2 by (simp add: load_results_def)
  moreover have "mapE py_key (js1 @ js2) = Inr (ks1 @ ks2)"
    using k1 k2 by (rule mapE_append)
  moreover have "map Some (ks1 @ ks2) =
      map site_key (filter positive_total (load_results (a # files)))"
    using m1 m2 by (simp add: load_results_def)
  ultimately show ?case by blast
qed

lemma scrape_success_resolve:
  assumes "snd (scrape_products req env) = Inr (ScrapeSuccess p)"
  shows "\<exists>lg. snd (resolve req (outputs env) lg) = Inr (ScrapeSuccess p)"
  using assms
  by (auto simp: scrape_products_def Let_def
      split: proc_result.splits sum.splits option.splits if_splits)

lemma resolve_batch:
  assumes "batch_files st = newest # older"
  shows "snd (resolve req st lg) =
           (case content newest of
              Unreadable \<Rightarrow> Inl (HTTP500 ReadError)
            | Parsed data \<Rightarrow>
                (case bindE (batch_sites data) list_set of
                   Inl e \<Rightarrow> Inl (HTTP500 e)
                 | Inr ss \<Rightarrow>
                     Inr (ScrapeSuccess
                       \<lparr>sc_location = req_location req, sc_product = req_product req,
                        sc_data = data,
                        sc_total_sites = (case data of JArr items \<Rightarrow> length items | _ \<Rightarrow> 1),
                        sites_scraped = ss\<rparr>)))"
  using assms by (simp add: resolve_def split: file_content.splits sum.splits)

lemma resolve_fallback:
  assumes "batch_files st = []"
    and "foldl fallback_file ([], [], lg) (glob ''*-parsed.json'' st) = (ad, sl, lg')"
  shows "snd (resolve req st lg) =
           (case list_set sl of
              Inl e \<Rightarrow> Inl (HTTP500 e)
            | Inr ss \<Rightarrow>
                Inr (ScrapeSuccess
                  \<lparr>sc_location = req_location req, sc_product = req_product req,
                   sc_data = JArr ad, sc_total_sites = length ad, sites_scraped = ss\<rparr>))"
  using assms by (simp add: resolve_def split: sum.splits)

lemma batch_sites_valid:
  assumes "list_all is_parse_result (results_of data)"
  shows "\<exists>js ks. batch_sites data = Inr js \<and> mapE py_key js = Inr ks \<and>
           map Some ks = map site_key (filter positive_total (results_of data))"
proof (cases "\<exists>items. data = JArr items")
  case True
  then obtain items where d: "data = JArr items" by blast
  with assms have "list_all is_parse_result items" by (simp add: results_of_def)
  from scraped_sites_valid [OF this] d show ?thesis
    by (simp add: batch_sites_def results_of_def)
next
  case False
  then have ro: "results_of data = [data]" by (cases data) (simp_all add: results_of_def)
  with assms have v: "is_parse_result data" by simp
  then obtain kvs where d: "data = JObj kvs" using is_parse_result_obj by blast
  from scraped_site_valid [OF v] obtain s where k: "site_key data = Some (KStr s)"
    and sc: "scraped_site data = Inr (if positive_total data then [JStr s] else [])" by blast
  have bs: "batch_sites data = scraped_site data" by (simp add: batch_sites_def d)
  have pk: "py_key (JStr s) = Inr (KStr s)" by (simp add: py_key_def)
  show ?thesis
    unfolding bs ro using k sc pk by (cases "positive_total data") simp_all
qed

lemma valid_artifact_results:
  "valid_artifact (Parsed data) \<Longrightarrow> list_all is_parse_result (results_of data)"
  by (cases data) (simp_all add: valid_artifact_def results_of_def)

lemma list_set_keys:
  assumes "mapE py_key js = Inr ks"
  shows "list_set js = Inr (remdups ks)"
  using assms by (simp add: list_set_def)

lemma resolve_sites:
  assumes ok: "snd (resolve req st lg) = Inr (ScrapeSuccess p)"
    and v: "list_all is_parse_result (results_of (sc_data p))"
  shows "Some ` set (sites_scraped p) =
           site_key ` set (filter positive_total (results_of (sc_data p))) \<and>
         distinct (sites_scraped p)"
proof (cases "batch_files st")
  case (Cons newest older)
  from ok resolve_batch [OF Cons, of req lg] obtain data ss
    where c: "content newest = Parsed data"
      and b: "bindE (batch_sites data) list_set = Inr ss"
      and d: "sc_data p = data" and s: "sites_scraped p = ss"
    by (auto split: file_content.splits sum.splits)
  from v d have "list_all is_parse_result (results_of data)" by simp
  from batch_sites_valid [OF this] obtain js ks where js: "batch_sites data = Inr js"
    and ks: "mapE py_key js = Inr ks"
    and m: "map Some ks = map site_key (filter positive_total (results_of data))" by blast
  from b js list_set_keys [OF ks] have ss: "ss = remdups ks" by simp
  have "Some ` set ks = set (map Some ks)" by simp
  also have "\<dots> = site_key ` set (filter positive_total (results_of data))"
    unfolding m by simp
  finally show ?thesis using ss s d by simp
next
  case Nil
  obtain ad sl lg' where f: "foldl fallback_file ([], [], lg) (glob ''*-parsed.json'' st) = (ad, sl, lg')"
    by (cases "foldl fallback_file ([], [], lg) (glob ''*-parsed.json'' st)") auto
  from fallback_data [of "[]" "[]" lg "glob ''*-parsed.json'' st"] f
  have ad: "ad = load_results (glob ''*-parsed.json'' st)" by simp
  from ok resolve_fallback [OF Nil f, of req] obtain ss
    where l: "list_set sl = Inr ss" and d: "sc_data p = JArr ad" and s: "sites_scraped p = ss"
    by (auto split: sum.splits)
  from v d ad have "list_all is_parse_result (load_results (glob ''*-parsed.json'' st))"
    by (simp add: results_of_def)
  from fallback_valid [OF this, of "[]" "[]" lg] f obtain ks
    where ks: "mapE py_key sl = Inr ks"
      and m: "map Some ks = map site_key (filter positive_total (load_results (glob ''*-parsed.json'' st)))"
    by auto
  from l list_set_keys [OF ks] have ss: "ss = remdups ks" by simp
  have "Some ` set ks = set (map Some ks)" by simp
  also have "\<dots> = site_key ` set (filter positive_total (load_results (glob ''*-parsed.json'' st)))"
    unfolding m by simp
  finally show ?thesis using ss s d ad by (simp add: results_of_def)
qed

lemma example_scrape:
  "scrape_products example_request example_env =
     ([ScrapeWarning ''zepto: timeout''], Inr (ScrapeSuccess example_scrape_payload))"
  by code_simp

text \<open>
  C8. In a successful answer of \<^verbatim>\<open>POST /scrape\<close> whose aggregated results are
  ParseResults, \<^verbatim>\<open>sites_scraped\<close> lists, each once, exactly the sites of the results
  whose stored \<^verbatim>\<open>totalProducts\<close> is greater than 0; a result whose \<^verbatim>\<open>totalProducts\<close>
  is 0 or absent adds nothing, whatever its product list holds.
\<close>

theorem sites_scraped_from_totals:
  assumes "snd (scrape_products req env) = Inr (ScrapeSuccess p)"
    and "list_all is_parse_result (results_of (sc_data p))"
  shows "Some ` set (sites_scraped p) =
           site_key ` set (filter positive_total (results_of (sc_data p))) \<and>
         distinct (sites_scraped p)"
proof -
  from scrape_success_resolve [OF assms(1)] obtain lg
    where "snd (resolve req (outputs env) lg) = Inr (ScrapeSuccess p)" by blast
  from resolve_sites [OF this assms(2)] show ?thesis .
qed

theorem sites_scraped_from_totals_witness:
  "snd (scrape_products example_request example_env) = Inr (ScrapeSuccess example_scrape_payload) \<and>
   list_all is_parse_result (results_of (sc_data example_scrape_payload)) \<and>
   Some ` set (sites_scraped example_scrape_payload) =
     site_key ` set (filter positive_total (results_of (sc_data example_scrape_payload))) \<and>
   distinct (sites_scraped example_scrape_payload) \<and>
   sites_scraped example_scrape_payload = [KStr ''dmart'']"
proof -
  have r: "snd (scrape_products example_request example_env) = Inr (ScrapeSuccess example_scrape_payload)"
    by (simp add: example_scrape)
  have v: "list_all is_parse_result (results_of (sc_data example_scrape_payload))"
    by code_simp
  have s: "sites_scraped example_scrape_payload = [KStr ''dmart'']"
    by (simp add: example_scrape_payload_def)
  from sites_scraped_from_totals [OF r v] r v s show ?thesis by blast
qed

lemma scrape_products_found:
  assumes "scrape_proc env = Exited rc err" and "scrape_warning rc err = Inr lg"
  shows "scrape_products req env =
           (if found_html env = [] then
              (lg, Inr (ScrapeNoHtml (req_location req) (req_product req)))
            else
              (case parse_proc env of
                 SpawnFailed \<Rightarrow> (lg, Inl (HTTP500 OSError))
               | Exited parse_rc parse_err \<Rightarrow> resolve req (outputs env) lg))"
  using assms by (simp add: scrape_products_def found_html_def Let_def)

text \<open>
  C7, as amended. Suppose the scraping process ran and exited with code 0, or with
  another code and a stderr that is empty or decodes. If no HTML file is found, the
  handler answers with \<^verbatim>\<open>data = []\<close> whatever the store holds. Otherwise, if the
  parsing process ran: when a batch artifact exists, one with the greatest
  modification time is loaded; the answer is a 500 when that file cannot be read,
  every successful answer carries its content as \<^verbatim>\<open>data\<close>, and the answer is
  successful with that content when it is a valid artifact. When no batch artifact
  exists, every successful answer carries the records of all individual artifacts,
  and the answer is successful with these records when they are ParseResults.
\<close>

theorem resolution_order:
  assumes "scrape_proc env = Exited rc err" and "scrape_warning rc err = Inr lg"
  shows "(found_html env = [] \<longrightarrow>
            snd (scrape_products req env) =
              Inr (ScrapeNoHtml (req_location req) (req_product req)) \<and>
            response_data (ScrapeNoHtml (req_location req) (req_product req)) = JArr [])
         \<and>
         (found_html env \<noteq> [] \<and> parse_proc env \<noteq> SpawnFailed \<longrightarrow>
            (glob ''parsed-results-*.json'' (outputs env) \<noteq> [] \<longrightarrow>
               (\<exists>newest. newest \<in> set (glob ''parsed-results-*.json'' (outputs env)) \<and>
                  (\<forall>a \<in> set (glob ''parsed-results-*.json'' (outputs env)).
                      mtime a \<le> mtime newest) \<and>
                  (content newest = Unreadable \<longrightarrow>
                     snd (scrape_products req env) = Inl (HTTP500 ReadError)) \<and>
                  (\<forall>r. snd (scrape_products req env) = Inr r \<longrightarrow>
                       content newest = Parsed (response_data r)) \<and>
                  (valid_artifact (content newest) \<longrightarrow>
                     (\<exists>r. snd (scrape_products req env) = Inr r \<and>
                          content newest = Parsed (response_data r)))))
            \<and>
            (glob ''parsed-results-*.json'' (outputs env) = [] \<longrightarrow>
               (\<forall>r. snd (scrape_products req env) = Inr r \<longrightarrow>
                    response_data r = JArr (all_results (outputs env))) \<and>
               (list_all is_parse_result (all_results (outputs env)) \<longrightarrow>
                  (\<exists>r. snd (scrape_products req env) = Inr r \<and>
                       response_data r = JArr (all_results (outputs env))))))"
proof -
  let ?st = "outputs env"
  note sp = scrape_products_found [OF assms, of req]
  have nohtml: "snd (scrape_products req env) =
              Inr (ScrapeNoHtml (req_location req) (req_product req)) \<and>
            response_data (ScrapeNoHtml (req_location req) (req_product req)) = JArr []"
    if "found_html env = []"
    using that by (simp add: sp response_data_def)
  have rest: "(glob ''parsed-results-*.json'' ?st \<noteq> [] \<longrightarrow>
               (\<exists>newest. newest \<in> set (glob ''parsed-results-*.json'' ?st) \<and>
                  (\<forall>a \<in> set (glob ''parsed-results-*.json'' ?st). mtime a \<le> mtime newest) \<and>
                  (content newest = Unreadable \<longrightarrow>
                     snd (scrape_products req env) = Inl (HTTP500 ReadError)) \<and>
                  (\<forall>r. snd (scrape_products req env) = Inr r \<longrightarrow>
                       content newest = Parsed (response_data r)) \<and>
                  (valid_artifact (content newest) \<longrightarrow>
                     (\<exists>r. snd (scrape_products req env) = Inr r \<and>
                          content newest = Parsed (response_data r)))))
            \<and>
            (glob ''parsed-results-*.json'' ?st = [] \<longrightarrow>
               (\<forall>r. snd (scrape_products req env) = Inr r \<longrightarrow>
                    response_data r = JArr (all_results ?st)) \<and>
               (list_all is_parse_result (all_results ?st) \<longrightarrow>
                  (\<exists>r. snd (scrape_products req env) = Inr r \<and>
                       response_data r = JArr (all_results ?st))))"
    if html: "found_html env \<noteq> []" and parse: "parse_proc env \<noteq> SpawnFailed"
  proof -
    from parse obtain prc perr where "parse_proc env = Exited prc perr"
      by (cases "parse_proc env") auto
    with html have spr: "scrape_products req env = resolve req ?st lg"
      by (simp add: sp)
    have batch: "\<exists>newest. newest \<in> set (glob ''parsed-results-*.json'' ?st) \<and>
                  (\<forall>a \<in> set (glob ''parsed-results-*.json'' ?st). mtime a \<le> mtime newest) \<and>
                  (content newest = Unreadable \<longrightarrow>
                     snd (scrape_products req env) = Inl (HTTP500 ReadError)) \<and>
                  (\<forall>r. snd (scrape_products req env) = Inr r \<longrightarrow>
                       content newest = Parsed (response_data r)) \<and>
                  (valid_artifact (content newest) \<longrightarrow>
                     (\<exists>r. snd (scrape_products req env) = Inr r \<and>
                          content newest = Parsed (response_data r)))"
      if ne: "glob ''parsed-results-*.json'' ?st \<noteq> []"
    proof -
      from ne obtain newest older where bf: "batch_files ?st = newest # older"
        using batch_files_empty [of ?st] by (cases "batch_files ?st") auto
      note rb = resolve_batch [OF bf, of req lg]
      have u: "snd (scrape_products req env) = Inl (HTTP500 ReadError)"
        if "content newest = Unreadable"
        using that unfolding spr rb by simp
      have d: "content newest = Parsed (response_data r)"
        if "snd (scrape_products req env) = Inr r" for r
        using that unfolding spr rb
        by (auto simp: response_data_def split: file_content.splits sum.splits)
      have s: "\<exists>r. snd (scrape_products req env) = Inr r \<and>
                 content newest = Parsed (response_data r)"
        if va: "valid_artifact (content newest)"
      proof -
        from va obtain data where c: "content newest = Parsed data"
          by (cases "content newest") (simp_all add: valid_artifact_def)
        from va c have "list_all is_parse_result (results_of data)"
          by (simp add: valid_artifact_results)
        from batch_sites_valid [OF this] obtain js ks where "batch_sites data = Inr js"
          and "mapE py_key js = Inr ks" by blast
        then have "bindE (batch_sites data) list_set = Inr (remdups ks)"
          by (simp add: list_set_keys)
        then show ?thesis unfolding spr rb c by (simp add: response_data_def)
      qed
      from batch_files_newest [OF bf] u d s show ?thesis by blast
    qed
    have fallback: "(\<forall>r. snd (scrape_products req env) = Inr r \<longrightarrow>
                    response_data r = JArr (all_results ?st)) \<and>
               (list_all is_parse_result (all_results ?st) \<longrightarrow>
                  (\<exists>r. snd (scrape_products req env) = Inr r \<and>
                       response_data r = JArr (all_results ?st)))"
      if e: "glob ''parsed-results-*.json'' ?st = []"
    proof -
      from e have bf: "batch_files ?st = []" by (simp add: batch_files_empty)
      obtain ad sl lg' where f:
        "foldl fallback_file ([], [], lg) (glob ''*-parsed.json'' ?st) = (ad, sl, lg')"
        by (cases "foldl fallback_file ([], [], lg) (glob ''*-parsed.json'' ?st)") auto
      from fallback_data [of "[]" "[]" lg "glob ''*-parsed.json'' ?st"] f
      have ad: "ad = all_results ?st" by (simp add: all_results_def)
      note rf = resolve_fallback [OF bf f, of req]
      have d: "response_data r = JArr (all_results ?st)"
        if "snd (scrape_products req env) = Inr r" for r
        using that unfolding spr rf
        by (auto simp: response_data_def ad split: sum.splits)
      have s: "\<exists>r. snd (scrape_products req env) = Inr r \<and>
                 response_data r = JArr (all_results ?st)"
        if v: "list_all is_parse_result (all_results ?st)"
      proof -
        from v have "list_all is_parse_result (load_results (glob ''*-parsed.json'' ?st))"
          by (simp add: all_results_def)
        from fallback_valid [OF this, of "[]" "[]" lg] f obtain ks
          where "mapE py_key sl = Inr ks" by auto
        then have "list_set sl = Inr (remdups ks)" by (rule list_set_keys)
        then show ?thesis unfolding spr rf by (simp add: response_data_def ad)
      qed
      from d s show ?thesis by blast
    qed
    from batch fallback show ?thesis by blast
  qed
  from nohtml rest show ?thesis by blast
qed

theorem resolution_order_witness:
  "scrape_proc example_env = Exited 1 (StderrText ''zepto: timeout'') \<and>
   scrape_warning 1 (StderrText ''zepto: timeout'') = Inr [ScrapeWarning ''zepto: timeout''] \<and>
   found_html example_env \<noteq> [] \<and> parse_proc example_env \<noteq> SpawnFailed \<and>
   glob ''parsed-results-*.json'' (outputs example_env) \<noteq> [] \<and>
   (\<exists>newest. newest \<in> set (glob ''parsed-results-*.json'' (outputs example_env)) \<and>
      content newest = Parsed (sc_data example_scrape_payload)) \<and>
   snd (scrape_products example_request example_env) = Inr (ScrapeSuccess example_scrape_payload) \<and>
   found_html (example_env\<lparr>html_dir := None\<rparr>) = [] \<and>
   snd (scrape_products example_request (example_env\<lparr>html_dir := None\<rparr>)) =
     Inr (ScrapeNoHtml ''Mumbai'' ''milk'')"
proof -
  have h1: "scrape_proc example_env = Exited 1 (StderrText ''zepto: timeout'')" by code_simp
  have h1': "scrape_proc (example_env\<lparr>html_dir := None\<rparr>) = Exited 1 (StderrText ''zepto: timeout'')"
    by code_simp
  have h2: "scrape_warning 1 (StderrText ''zepto: timeout'') = Inr [ScrapeWarning ''zepto: timeout'']"
    by code_simp
  have h3: "found_html example_env \<noteq> []" by code_simp
  have h4: "parse_proc example_env \<noteq> SpawnFailed" by code_simp
  have h5: "found_html (example_env\<lparr>html_dir := None\<rparr>) = []" by code_simp
  have ne: "glob ''parsed-results-*.json'' (outputs example_env) \<noteq> []" by code_simp
  have rq: "req_location example_request = ''Mumbai''" "req_product example_request = ''milk''"
    by (simp_all add: example_request_def)
  have r: "snd (scrape_products example_request example_env) = Inr (ScrapeSuccess example_scrape_payload)"
    by (simp add: example_scrape)
  have rd: "response_data (ScrapeSuccess example_scrape_payload) = sc_data example_scrape_payload"
    by (simp add: response_data_def)
  from resolution_order [OF h1 h2, of example_request] h3 h4 ne
  obtain newest where "newest \<in> set (glob ''parsed-results-*.json'' (outputs example_env))"
    and "\<forall>r. snd (scrape_products example_request example_env) = Inr r \<longrightarrow>
             content newest = Parsed (response_data r)"
    by blast
  with r rd have a: "\<exists>newest. newest \<in> set (glob ''parsed-results-*.json'' (outputs example_env)) \<and>
      content newest = Parsed (sc_data example_scrape_payload)"
    by auto
  from resolution_order [OF h1' h2, of example_request] h5 rq
  have b: "snd (scrape_products example_request (example_env\<lparr>html_dir := None\<rparr>)) =
     Inr (ScrapeNoHtml ''Mumbai'' ''milk'')"
    by simp
  from a b r h1 h2 h3 h4 h5 ne show ?thesis by blast
qed

text \<open>
  C7 as stated fails when no HTML file is found: batch artifacts exist, none of them
  empty, and the handler returns early with \<^verbatim>\<open>data = []\<close>.
\<close>

theorem no_html_ignores_batch:
  "glob ''parsed-results-*.json'' (outputs (example_env\<lparr>html_dir := Some [''notes.txt'']\<rparr>)) \<noteq> [] \<and>
   list_all (\<lambda>a. content a \<noteq> Parsed (JArr []))
     (glob ''parsed-results-*.json'' (outputs (example_env\<lparr>html_dir := Some [''notes.txt'']\<rparr>))) \<and>
   snd (scrape_products example_request (example_env\<lparr>html_dir := Some [''notes.txt'']\<rparr>))
     = Inr (ScrapeNoHtml ''Mumbai'' ''milk'') \<and>
   response_data (ScrapeNoHtml ''Mumbai'' ''milk'') = JArr []"
  by code_simp

end
